theory Spec2Isabelle
  imports Complex_Main
begin

section \<open>The connection manager of \<^verbatim>\<open>src/frontend/src/utils/ChatWSManager.ts\<close>\<close>

text \<open>
  The class \<^verbatim>\<open>ChatWSManager\<close> is embedded as a record of its private fields together
  with the part of the browser it talks to (the sockets it created, the pending timers,
  the promises handed out by \<^verbatim>\<open>ensureAuthorized\<close>, the persisted credentials, and the
  trace of callback invocations). Every method is a function from state to state; every
  \<^verbatim>\<open>try\<close>/\<^verbatim>\<open>catch\<close> of the source is a branch on a value that says whether the
  guarded call threw. JavaScript runs one handler to completion before the next, so each
  method and each event handler is one atomic step.

  A callback supplied by the caller is straight-line code: invoking it appends an entry to
  the trace, runs the synchronous operations of the manager that the callback calls
  (\<^verbatim>\<open>send\<close>, \<^verbatim>\<open>connect\<close>, \<^verbatim>\<open>close\<close>, \<^verbatim>\<open>updateSessionContext\<close>, \<^verbatim>\<open>setCallbacks\<close>), in their order,
  and then returns or throws. The page \<^verbatim>\<open>src/frontend/src/pages/Auth/Login.tsx\<close> registers
  an \<^verbatim>\<open>onOpen\<close> that calls \<^verbatim>\<open>chatWSManager.send\<close>. A callback that awaits
  \<^verbatim>\<open>ensureAuthorized\<close>, or whose calls depend on what it reads from the manager, is
  outside this model.
\<close>

subsection \<open>Data\<close>

datatype ConnectionState = Idle | Connecting | Open | Closing | Closed

text \<open>\<^verbatim>\<open>WebSocket.readyState\<close>.\<close>

datatype ReadyState = CONNECTING | OPEN | CLOSING | CLOSED

text \<open>Values produced by \<^verbatim>\<open>JSON.parse\<close> and consumed by \<^verbatim>\<open>JSON.stringify\<close>.\<close>

datatype jsval =
    JUndefined
  | JNull
  | JBool bool
  | JNum real
  | JStr string
  | JArr "jsval list"
  | JObj "(string \<times> jsval) list"

text \<open>
  Built-ins of the platform that the source calls and that are not part of the repository;
  they are parameters of the model. \<open>JSON_parse\<close> returns \<open>None\<close> where
  \<^verbatim>\<open>JSON.parse\<close> throws; \<open>ToString_other\<close> is the string conversion of a template literal
  for a value that is not already a string; \<open>WebSocket_throws\<close> says for which URLs the
  constructor \<^verbatim>\<open>new WebSocket(url)\<close> throws. \<open>JSON_stringify\<close> returns \<open>None\<close> where
  \<^verbatim>\<open>JSON.stringify\<close> returns \<^verbatim>\<open>undefined\<close>, as it does for the value \<^verbatim>\<open>undefined\<close>; on the
  values of \<open>jsval\<close> (finite trees of plain data) it does not throw.
\<close>

record platform =
  JSON_parse :: "string \<Rightarrow> jsval option"
  JSON_stringify :: "jsval \<Rightarrow> string option"
  ToString_other :: "jsval \<Rightarrow> string"
  WebSocket_throws :: "string \<Rightarrow> bool"

text \<open>The argument of \<^verbatim>\<open>updateSessionContext\<close>.\<close>

record context_options =
  opt_url :: string
  opt_sessionId :: string
  opt_isAssistantMode :: bool

text \<open>The argument of \<^verbatim>\<open>send\<close>: a string is passed through, anything else is serialised.\<close>

datatype payload = Text string | Value jsval

text \<open>
  \<^verbatim>\<open>ChatWSCallbacks\<close>: every handler is optional (\<open>None\<close>: not set). A handler is the
  list of the calls it makes on the manager, and whether it throws after them.
\<close>

datatype action =
    ActSend payload
  | ActConnect
  | ActClose
  | ActUpdateSessionContext context_options
  | ActSetCallbacks ChatWSCallbacks
and callback =
    Callback (actions: "action list") (throws: bool)
and ChatWSCallbacks =
    Callbacks (onOpen: "callback option") (onAuthSuccess: "callback option")
              (onMessage: "callback option") (onClose: "callback option")
              (onError: "callback option")

datatype cb_event = CbOpen | CbAuthSuccess | CbMessage string | CbClose | CbError

record socket =
  sock_url :: string
  readyState :: ReadyState
  sent :: "string list"

text \<open>What a pending timer does when it fires.\<close>

datatype task = Heartbeat | Reconnect | AuthTimeout nat

text \<open>
  The closure state of one \<^verbatim>\<open>ensureAuthorized\<close> promise: its \<^verbatim>\<open>settled\<close> flag, the handle
  of its timeout, and the value the promise was resolved with, if any.
\<close>

record waiter =
  settled :: bool
  timer :: nat
  resolved :: "bool option"

text \<open>
  The fields of the class, in the order of the source, followed by the environment.
  \<open>ws\<close> and \<open>awaitingAuthResolve\<close> are references: an index into \<open>sockets\<close> and
  into \<open>waiters\<close>. \<open>stateLog\<close> is a history variable: every assignment to \<open>state\<close>
  is appended to it. An entry of \<open>sendQueue\<close> is a string or \<^verbatim>\<open>undefined\<close> (\<open>None\<close>):
  \<^verbatim>\<open>send\<close> queues whatever \<^verbatim>\<open>JSON.stringify\<close> returned. \<open>sendFails\<close> and \<open>closeFails\<close> script the outcome of the coming
  calls of \<^verbatim>\<open>WebSocket.send\<close> and \<^verbatim>\<open>WebSocket.close\<close> (\<open>True\<close>: the call throws),
  \<open>randoms\<close> the coming results of \<^verbatim>\<open>Math.random()\<close>.
\<close>

record ChatWSManager =
  ws :: "nat option"
  url :: "string option"
  sessionId :: "string option"
  isAssistantMode :: bool
  state :: ConnectionState
  callbacks :: ChatWSCallbacks
  heartbeatTimer :: "nat option"
  reconnectTimer :: "nat option"
  reconnectAttempts :: nat
  explicitlyClosed :: bool
  sendQueue :: "string option list"
  authorized :: bool
  awaitingAuthResolve :: "nat option"
  connectedUrl :: "string option"
  connectedSessionId :: "string option"
  sockets :: "socket list"
  timers :: "(nat \<times> task \<times> real) list"
  nextHandle :: nat
  waiters :: "waiter list"
  storage :: "string option"
  trace :: "cb_event list"
  stateLog :: "ConnectionState list"
  sendFails :: "bool list"
  closeFails :: "bool list"
  randoms :: "real list"

text \<open>The freshly constructed singleton, in a browser whose credential store holds \<open>st\<close>.\<close>

definition init :: "string option \<Rightarrow> ChatWSManager" where
  "init st =
     \<lparr> ws = None, url = None, sessionId = None, isAssistantMode = False, state = Idle,
       callbacks = Callbacks None None None None None,
       heartbeatTimer = None, reconnectTimer = None, reconnectAttempts = 0,
       explicitlyClosed = False, sendQueue = [], authorized = False,
       awaitingAuthResolve = None, connectedUrl = None, connectedSessionId = None,
       sockets = [], timers = [], nextHandle = 0, waiters = [], storage = st,
       trace = [], stateLog = [], sendFails = [], closeFails = [], randoms = [] \<rparr>"

subsection \<open>JavaScript truthiness and property access\<close>

text \<open>\<^verbatim>\<open>!this.url\<close>: \<^verbatim>\<open>null\<close> and the empty string are falsy.\<close>

definition truthy_str :: "string option \<Rightarrow> bool" where
  "truthy_str s = (case s of None \<Rightarrow> False | Some v \<Rightarrow> v \<noteq> [])"

text \<open>\<^verbatim>\<open>if (this.reconnectTimer)\<close>: \<^verbatim>\<open>null\<close> and the number 0 are falsy.\<close>

definition truthy_handle :: "nat option \<Rightarrow> bool" where
  "truthy_handle h = (case h of None \<Rightarrow> False | Some n \<Rightarrow> n \<noteq> 0)"

fun truthy :: "jsval \<Rightarrow> bool" where
  "truthy JUndefined = False"
| "truthy JNull = False"
| "truthy (JBool b) = b"
| "truthy (JNum n) = (n \<noteq> 0)"
| "truthy (JStr s) = (s \<noteq> [])"
| "truthy (JArr xs) = True"
| "truthy (JObj kvs) = True"

text \<open>
  \<^verbatim>\<open>v.k\<close> for one of the keys the source reads (\<^verbatim>\<open>type\<close>, \<^verbatim>\<open>state\<close>, \<^verbatim>\<open>token\<close>), on a
  value that is neither \<^verbatim>\<open>null\<close> nor \<^verbatim>\<open>undefined\<close>: primitives and arrays have no such
  property. The source guards every access, so the two remaining cases are never read.
\<close>

fun getProp :: "jsval \<Rightarrow> string \<Rightarrow> jsval" where
  "getProp (JObj kvs) k = (case map_of kvs k of None \<Rightarrow> JUndefined | Some v \<Rightarrow> v)"
| "getProp v k = JUndefined"

text \<open>\<^verbatim>\<open>v?.k\<close>.\<close>

definition optChain :: "jsval \<Rightarrow> string \<Rightarrow> jsval" where
  "optChain v k = (if v = JUndefined \<or> v = JNull then JUndefined else getProp v k)"

text \<open>The conversion of \<^verbatim>\<open>${token}\<close> inside a template literal.\<close>

fun ToString :: "platform \<Rightarrow> jsval \<Rightarrow> string" where
  "ToString P (JStr s) = s"
| "ToString P v = ToString_other P v"

subsection \<open>The browser: timers, sockets\<close>

text \<open>
  \<^verbatim>\<open>window.setTimeout\<close> and \<^verbatim>\<open>window.setInterval\<close> return a fresh handle greater than
  zero; \<^verbatim>\<open>clearTimeout\<close> and \<^verbatim>\<open>clearInterval\<close> drop the timer with that handle.
\<close>

definition setTimer :: "task \<Rightarrow> real \<Rightarrow> ChatWSManager \<Rightarrow> nat \<times> ChatWSManager" where
  "setTimer t d m =
     (let h = Suc (nextHandle m)
      in (h, m\<lparr> timers := timers m @ [(h, t, d)], nextHandle := h \<rparr>))"

definition clearTimer :: "nat \<Rightarrow> ChatWSManager \<Rightarrow> ChatWSManager" where
  "clearTimer h m = m\<lparr> timers := filter (\<lambda>e. fst e \<noteq> h) (timers m) \<rparr>"

definition Math_random :: "ChatWSManager \<Rightarrow> real \<times> ChatWSManager" where
  "Math_random m =
     (case randoms m of [] \<Rightarrow> (0, m) | r # rs \<Rightarrow> (r, m\<lparr> randoms := rs \<rparr>))"

text \<open>
  Socket handles are the indices \<open>new_WebSocket\<close> returned, so they are in range; a
  handle out of range reads as a closed socket.
\<close>

definition readyStateOf :: "ChatWSManager \<Rightarrow> nat \<Rightarrow> ReadyState" where
  "readyStateOf m i = (if i < length (sockets m) then readyState (sockets m ! i) else CLOSED)"

definition setReadyState :: "nat \<Rightarrow> ReadyState \<Rightarrow> ChatWSManager \<Rightarrow> ChatWSManager" where
  "setReadyState i r m =
     (if i < length (sockets m)
      then m\<lparr> sockets := (sockets m)[i := (sockets m ! i)\<lparr> readyState := r \<rparr>] \<rparr>
      else m)"

text \<open>\<^verbatim>\<open>this.ws && this.ws.readyState === WebSocket.OPEN\<close>.\<close>

definition wsOpen :: "ChatWSManager \<Rightarrow> bool" where
  "wsOpen m = (case ws m of None \<Rightarrow> False | Some i \<Rightarrow> readyStateOf m i = OPEN)"

definition nextSendFails :: "ChatWSManager \<Rightarrow> bool" where
  "nextSendFails m = (case sendFails m of [] \<Rightarrow> False | f # fs \<Rightarrow> f)"

text \<open>
  \<^verbatim>\<open>socket.send(data)\<close>. The first component says whether the call threw. It throws
  while the socket is still connecting and whenever the script says so; on an open
  socket the frame is transmitted, on a closing or closed one it is discarded silently.
\<close>

definition ws_send :: "nat \<Rightarrow> string \<Rightarrow> ChatWSManager \<Rightarrow> bool \<times> ChatWSManager" where
  "ws_send i data m =
     (let fails = nextSendFails m;
          m1 = m\<lparr> sendFails := tl (sendFails m) \<rparr>
      in if fails \<or> readyStateOf m i = CONNECTING then (True, m1)
         else if readyStateOf m i = OPEN
           then (False, m1\<lparr> sockets := (sockets m)[i := (sockets m ! i)\<lparr> sent := sent (sockets m ! i) @ [data] \<rparr>] \<rparr>)
           else (False, m1))"

text \<open>
  \<^verbatim>\<open>socket.close()\<close>: starts the closing handshake of a socket that is connecting or
  open, unless the script makes the call throw.
\<close>

definition ws_close :: "nat \<Rightarrow> ChatWSManager \<Rightarrow> bool \<times> ChatWSManager" where
  "ws_close i m =
     (let fails = (case closeFails m of [] \<Rightarrow> False | f # fs \<Rightarrow> f);
          m1 = m\<lparr> closeFails := tl (closeFails m) \<rparr>
      in if fails then (True, m1)
         else if readyStateOf m i = CONNECTING \<or> readyStateOf m i = OPEN
           then (False, setReadyState i CLOSING m1)
           else (False, m1))"

text \<open>\<^verbatim>\<open>new WebSocket(url)\<close>: \<open>None\<close> when the constructor throws.\<close>

definition new_WebSocket :: "platform \<Rightarrow> string \<Rightarrow> ChatWSManager \<Rightarrow> nat option \<times> ChatWSManager" where
  "new_WebSocket P u m =
     (if WebSocket_throws P u then (None, m)
      else (Some (length (sockets m)),
            m\<lparr> sockets := sockets m @ [\<lparr> sock_url = u, readyState = CONNECTING, sent = [] \<rparr>] \<rparr>))"

text \<open>
  The argument of \<^verbatim>\<open>socket.send\<close> is converted to a string: \<^verbatim>\<open>undefined\<close> goes out as the
  text \<^verbatim>\<open>undefined\<close>.
\<close>

definition wsText :: "string option \<Rightarrow> string" where
  "wsText p = (case p of None \<Rightarrow> ''undefined'' | Some s \<Rightarrow> s)"

text \<open>An assignment \<^verbatim>\<open>this.state = s\<close>.\<close>

definition setState :: "ConnectionState \<Rightarrow> ChatWSManager \<Rightarrow> ChatWSManager" where
  "setState s m = m\<lparr> state := s, stateLog := stateLog m @ [s] \<rparr>"

subsection \<open>The outbound queue\<close>

definition MAX_QUEUE :: nat where
  "MAX_QUEUE = 100"

text \<open>\<^verbatim>\<open>enqueue\<close>: \<^verbatim>\<open>shift()\<close> drops the first entry, \<^verbatim>\<open>push\<close> appends.\<close>

definition enqueue :: "string option \<Rightarrow> ChatWSManager \<Rightarrow> ChatWSManager" where
  "enqueue payload m =
     (let m1 = (if length (sendQueue m) \<ge> MAX_QUEUE then m\<lparr> sendQueue := tl (sendQueue m) \<rparr> else m)
      in m1\<lparr> sendQueue := sendQueue m1 @ [payload] \<rparr>)"

text \<open>
  The loop of \<^verbatim>\<open>flushQueue\<close> on the socket \<open>i\<close>: \<^verbatim>\<open>shift()\<close> takes the first entry off the
  queue; an entry that is \<^verbatim>\<open>undefined\<close> leaves the loop (\<^verbatim>\<open>item === undefined\<close>), otherwise
  \<^verbatim>\<open>send\<close> is tried, and the \<^verbatim>\<open>catch\<close> leaves the loop.
\<close>

function flushLoop :: "nat \<Rightarrow> ChatWSManager \<Rightarrow> ChatWSManager" where
  "flushLoop i m =
     (case sendQueue m of
        [] \<Rightarrow> m
      | item # rest \<Rightarrow>
          (case item of
             None \<Rightarrow> m\<lparr> sendQueue := rest \<rparr>
           | Some s \<Rightarrow>
               (let r = ws_send i s (m\<lparr> sendQueue := rest \<rparr>)
                in if fst r then snd r else flushLoop i (snd r))))"
  by pat_completeness auto
termination
  by (relation "measure (\<lambda>(i, m). length (sendQueue m))") (auto simp: ws_send_def Let_def)

declare flushLoop.simps [simp del]

definition flushQueue :: "ChatWSManager \<Rightarrow> ChatWSManager" where
  "flushQueue m =
     (case ws m of
        None \<Rightarrow> m
      | Some i \<Rightarrow> if readyStateOf m i \<noteq> OPEN \<or> \<not> authorized m then m else flushLoop i m)"

subsection \<open>Heartbeat and reconnection timers\<close>

definition stopHeartbeat :: "ChatWSManager \<Rightarrow> ChatWSManager" where
  "stopHeartbeat m =
     (case heartbeatTimer m of
        None \<Rightarrow> m
      | Some h \<Rightarrow> if h \<noteq> 0 then (clearTimer h m)\<lparr> heartbeatTimer := None \<rparr> else m)"

definition startHeartbeat :: "ChatWSManager \<Rightarrow> ChatWSManager" where
  "startHeartbeat m =
     (let r = setTimer Heartbeat 25000 (stopHeartbeat m)
      in (snd r)\<lparr> heartbeatTimer := Some (fst r) \<rparr>)"

definition clearReconnectTimer :: "ChatWSManager \<Rightarrow> ChatWSManager" where
  "clearReconnectTimer m =
     (case reconnectTimer m of
        None \<Rightarrow> m
      | Some h \<Rightarrow> if h \<noteq> 0 then (clearTimer h m)\<lparr> reconnectTimer := None \<rparr> else m)"

text \<open>
  JavaScript numbers are IEEE 754 double-precision values, and an arithmetic operation
  returns the double nearest to the exact result, a tie going to the neighbour whose
  significand is even. \<open>ulp x\<close> is the spacing of the doubles around \<open>x\<close>: a double
  carries 53 significant bits, and below \<open>2 powr -1022\<close> the spacing stays that of the
  subnormal numbers. \<open>rne\<close> rounds to the nearest integer, a tie to the even one, and
  \<open>fl x\<close> is the double an operation with the exact result \<open>x\<close> returns. (Overflow to
  infinity is left out: the magnitudes below stay under \<open>2 ^ 20\<close>.)
\<close>

definition rne :: "real \<Rightarrow> int" where
  "rne y =
     (let f = \<lfloor>y\<rfloor>; d = y - of_int f
      in if d < 1 / 2 then f else if d > 1 / 2 then f + 1 else if even f then f else f + 1)"

definition ulp :: "real \<Rightarrow> real" where
  "ulp x = 2 powr (of_int (max \<lfloor>log 2 \<bar>x\<bar>\<rfloor> (- 1022)) - 52)"

definition fl :: "real \<Rightarrow> real" where
  "fl x = (if x = 0 then 0 else of_int (rne (x / ulp x)) * ulp x)"

text \<open>The real \<open>x\<close> is a double.\<close>

definition isDouble :: "real \<Rightarrow> bool" where
  "isDouble x \<longleftrightarrow> fl x = x"

text \<open>
  The delay of \<^verbatim>\<open>scheduleReconnect\<close> for the attempt number \<open>attempt\<close> and the value
  \<open>r\<close> of \<^verbatim>\<open>Math.random()\<close>. \<^verbatim>\<open>base * Math.pow(2, attempt - 1)\<close> and the minimum are
  integers below \<open>2 ^ 53\<close> and so exact; the product \<^verbatim>\<open>Math.random() * 300\<close> and the sum are
  rounded.
\<close>

definition reconnectDelay :: "nat \<Rightarrow> real \<Rightarrow> real" where
  "reconnectDelay attempt r =
     (let base = 1000; max_delay = 15000; jitter = fl (r * 300)
      in fl (real (min (base * 2 ^ (attempt - 1)) max_delay) + jitter))"

definition scheduleReconnect :: "ChatWSManager \<Rightarrow> ChatWSManager" where
  "scheduleReconnect m =
     (if explicitlyClosed m then m
      else if \<not> truthy_str (url m) \<or> \<not> truthy_str (sessionId m) then m
      else if truthy_handle (reconnectTimer m) then m
      else
        (let attempt = min (reconnectAttempts m + 1) 10;
             rnd = Math_random m;
             delay = reconnectDelay attempt (fst rnd);
             m1 = (snd rnd)\<lparr> reconnectAttempts := attempt \<rparr>;
             t = setTimer Reconnect delay m1
         in (snd t)\<lparr> reconnectTimer := Some (fst t) \<rparr>))"

subsection \<open>Authorization frame\<close>

text \<open>
  Lines 285 to 290 of \<^verbatim>\<open>sendAuthorization\<close>: the token read from the item
  \<^verbatim>\<open>auth-storage\<close> of \<^verbatim>\<open>localStorage\<close>; \<open>None\<close> on each path that returns without
  sending (no item, an item that does not parse, no truthy \<^verbatim>\<open>state.token\<close>).
\<close>

definition storedToken :: "platform \<Rightarrow> ChatWSManager \<Rightarrow> jsval option" where
  "storedToken P m =
     (if \<not> truthy_str (storage m) then None
      else case JSON_parse P (the (storage m)) of
             None \<Rightarrow> None
           | Some authData \<Rightarrow>
               (let token = optChain (optChain authData ''state'') ''token''
                in if \<not> truthy token then None else Some token))"

text \<open>\<^verbatim>\<open>JSON.stringify({ type: 'authorization', token: `Bearer ${token}` })\<close>.\<close>

definition authFrame :: "platform \<Rightarrow> jsval \<Rightarrow> string" where
  "authFrame P token =
     wsText (JSON_stringify P
       (JObj [(''type'', JStr ''authorization''), (''token'', JStr (''Bearer '' @ ToString P token))]))"

definition sendAuthorization :: "platform \<Rightarrow> ChatWSManager \<Rightarrow> ChatWSManager" where
  "sendAuthorization P m =
     (case storedToken P m of
        None \<Rightarrow> m
      | Some token \<Rightarrow>
          (case ws m of
             None \<Rightarrow> m
           | Some i \<Rightarrow> snd (ws_send i (authFrame P token) m)))"

subsection \<open>Public operations\<close>

definition setCallbacks :: "ChatWSCallbacks \<Rightarrow> ChatWSManager \<Rightarrow> ChatWSManager" where
  "setCallbacks cbs m = m\<lparr> callbacks := cbs \<rparr>"

definition close :: "ChatWSManager \<Rightarrow> ChatWSManager" where
  "close m =
     (let m1 = stopHeartbeat (m\<lparr> explicitlyClosed := True \<rparr>);
          m2 = (case ws m1 of
                  None \<Rightarrow> m1
                | Some i \<Rightarrow> (snd (ws_close i (setState Closing m1)))\<lparr> ws := None \<rparr>);
          m3 = clearReconnectTimer (setState Closed m2)
      in m3\<lparr> sendQueue := [], authorized := False \<rparr>)"

definition updateSessionContext :: "context_options \<Rightarrow> ChatWSManager \<Rightarrow> ChatWSManager" where
  "updateSessionContext options m =
     (let nextUrl = opt_url options;
          nextSessionId = opt_sessionId options;
          nextAssistantMode = opt_isAssistantMode options;
          urlChanged = (url m \<noteq> Some nextUrl);
          sessionChanged = (sessionId m \<noteq> Some nextSessionId);
          modeChanged = (isAssistantMode m \<noteq> nextAssistantMode);
          m1 = m\<lparr> url := Some nextUrl, sessionId := Some nextSessionId,
                  isAssistantMode := nextAssistantMode \<rparr>
      in if ws m1 \<noteq> None \<and> state m1 = Open \<and> (urlChanged \<or> sessionChanged \<or> modeChanged)
         then close m1 else m1)"

text \<open>
  The \<^verbatim>\<open>try\<close> block of \<^verbatim>\<open>connect\<close>: the handlers it registers are the functions
  \<open>onopen\<close>, \<open>onmessage\<close>, \<open>onclose\<close> and \<open>onerror\<close> below, which the browser
  runs for the events of the new socket.
\<close>

definition openTransport :: "platform \<Rightarrow> ChatWSManager \<Rightarrow> ChatWSManager" where
  "openTransport P m =
     (let currentUrl = the (url m);
          currentSession = the (sessionId m);
          r = new_WebSocket P currentUrl m
      in case fst r of
           None \<Rightarrow> scheduleReconnect (setState Closed (snd r))
         | Some i \<Rightarrow> (snd r)\<lparr> ws := Some i, connectedUrl := Some currentUrl,
                                connectedSessionId := Some currentSession \<rparr>)"

definition connect :: "platform \<Rightarrow> ChatWSManager \<Rightarrow> ChatWSManager" where
  "connect P m =
     (if \<not> truthy_str (url m) \<or> \<not> truthy_str (sessionId m) then m
      else if ws m \<noteq> None \<and> state m = Open \<and> wsOpen m
              \<and> connectedUrl m = url m \<and> connectedSessionId m = sessionId m then m
      else
        (let m1 = (if ws m \<noteq> None \<and> state m = Open \<and> wsOpen m then close m else m)
         in if state m1 = Connecting then m1
            else openTransport P
                   (setState Connecting (m1\<lparr> explicitlyClosed := False, authorized := False \<rparr>))))"

text \<open>
  \<^verbatim>\<open>awaitingAuthResolve(v)\<close> for the closure of waiter \<open>w\<close>: the \<^verbatim>\<open>settled\<close> flag makes
  it act once; it cancels the timeout and resolves the promise.
\<close>

definition resolveWaiter :: "nat \<Rightarrow> bool \<Rightarrow> ChatWSManager \<Rightarrow> ChatWSManager" where
  "resolveWaiter w v m =
     (if w < length (waiters m) \<and> \<not> settled (waiters m ! w)
      then (clearTimer (timer (waiters m ! w)) m)
             \<lparr> waiters := (waiters m)[w := (waiters m ! w)\<lparr> settled := True, resolved := Some v \<rparr>] \<rparr>
      else m)"

text \<open>
  What a call of \<^verbatim>\<open>ensureAuthorized\<close> gives its caller: a promise that is already resolved,
  or the promise of waiter \<open>w\<close>, resolved later through \<open>resolved\<close>.
\<close>

datatype outcome = Returned bool | Pending nat

definition ensureAuthorized :: "platform \<Rightarrow> real \<Rightarrow> ChatWSManager \<Rightarrow> outcome \<times> ChatWSManager" where
  "ensureAuthorized P timeoutMs m =
     (if wsOpen m \<and> authorized m then (Returned True, m)
      else
        (let m1 = (if \<not> wsOpen m then connect P m else m)
         in if authorized m1 then (Returned True, m1)
            else
              (let w = length (waiters m1);
                   t = setTimer (AuthTimeout w) timeoutMs m1
               in (Pending w,
                   (snd t)\<lparr> waiters := waiters (snd t) @ [\<lparr> settled = False, timer = fst t, resolved = None \<rparr>],
                            awaitingAuthResolve := Some w \<rparr>))))"

text \<open>
  \<^verbatim>\<open>send\<close>: \<open>payload\<close> is \<open>None\<close> when \<^verbatim>\<open>JSON.stringify\<close> returned \<^verbatim>\<open>undefined\<close>; it is
  queued as it is.
\<close>

definition send :: "platform \<Rightarrow> payload \<Rightarrow> ChatWSManager \<Rightarrow> ChatWSManager" where
  "send P data m =
     (let payload = (case data of Text s \<Rightarrow> Some s | Value v \<Rightarrow> JSON_stringify P v)
      in if wsOpen m \<and> authorized m
         then (let r = ws_send (the (ws m)) (wsText payload) m
               in if fst r then enqueue payload (snd r) else snd r)
         else connect P (enqueue payload m))"

subsection \<open>Callbacks\<close>

text \<open>One call of a callback on the manager.\<close>

fun perform :: "platform \<Rightarrow> ChatWSManager \<Rightarrow> action \<Rightarrow> ChatWSManager" where
  "perform P m (ActSend data) = send P data m"
| "perform P m ActConnect = connect P m"
| "perform P m ActClose = close m"
| "perform P m (ActUpdateSessionContext options) = updateSessionContext options m"
| "perform P m (ActSetCallbacks cbs) = setCallbacks cbs m"

text \<open>
  \<^verbatim>\<open>this.callbacks.f && this.callbacks.f(...)\<close>. The first component says whether the
  callback threw. No operation of the manager invokes a callback, so a callback runs to
  its end without another one starting.
\<close>

definition invoke ::
  "platform \<Rightarrow> (ChatWSCallbacks \<Rightarrow> callback option) \<Rightarrow> cb_event \<Rightarrow> ChatWSManager
     \<Rightarrow> bool \<times> ChatWSManager" where
  "invoke P f e m =
     (case f (callbacks m) of
        None \<Rightarrow> (False, m)
      | Some cb \<Rightarrow> (throws cb, foldl (perform P) (m\<lparr> trace := trace m @ [e] \<rparr>) (actions cb)))"

subsection \<open>Event handlers\<close>

text \<open>
  \<^verbatim>\<open>ws.onopen\<close> up to the call of \<^verbatim>\<open>onOpen\<close>, and the whole handler: an exception of the
  callback leaves the handler before \<^verbatim>\<open>sendAuthorization\<close>.
\<close>

definition onopenCallback :: "platform \<Rightarrow> ChatWSManager \<Rightarrow> bool \<times> ChatWSManager" where
  "onopenCallback P m =
     invoke P onOpen CbOpen (startHeartbeat ((setState Open m)\<lparr> reconnectAttempts := 0 \<rparr>))"

definition onopen :: "platform \<Rightarrow> ChatWSManager \<Rightarrow> ChatWSManager" where
  "onopen P m =
     (let r = onopenCallback P m
      in if fst r then snd r else sendAuthorization P (snd r))"

text \<open>
  \<^verbatim>\<open>if (this.awaitingAuthResolve) { this.awaitingAuthResolve(true); this.awaitingAuthResolve = null; }\<close>
\<close>

definition resolvePending :: "ChatWSManager \<Rightarrow> ChatWSManager" where
  "resolvePending m =
     (case awaitingAuthResolve m of
        None \<Rightarrow> m
      | Some w \<Rightarrow> (resolveWaiter w True m)\<lparr> awaitingAuthResolve := None \<rparr>)"

definition businessTypes :: "jsval list" where
  "businessTypes = [JStr ''history'', JStr ''message'', JStr ''reference'', JStr ''audio'', JStr ''done'']"

text \<open>
  Lines 119 to 123 and 138 to 140: the flag is set, the queue flushed and
  \<^verbatim>\<open>onAuthSuccess\<close> called.
\<close>

definition authorize :: "platform \<Rightarrow> ChatWSManager \<Rightarrow> bool \<times> ChatWSManager" where
  "authorize P m = invoke P onAuthSuccess CbAuthSuccess (flushQueue (m\<lparr> authorized := True \<rparr>))"

text \<open>Line 151: the frame is passed on to \<^verbatim>\<open>onMessage\<close>.\<close>

definition forward :: "platform \<Rightarrow> string \<Rightarrow> ChatWSManager \<Rightarrow> ChatWSManager" where
  "forward P d m = snd (invoke P onMessage (CbMessage d) m)"

text \<open>
  \<^verbatim>\<open>ws.onmessage\<close> for an event whose \<^verbatim>\<open>data\<close> is the text \<open>d\<close>. A frame that does not
  parse takes the \<^verbatim>\<open>catch\<close> and is passed on to \<^verbatim>\<open>onMessage\<close>. So does an exception of
  \<^verbatim>\<open>onAuthSuccess\<close>, which is called inside the \<^verbatim>\<open>try\<close>: the statements after the call are
  skipped, and the handler goes on behind the \<^verbatim>\<open>catch\<close>.
\<close>

definition onmessage :: "platform \<Rightarrow> string \<Rightarrow> ChatWSManager \<Rightarrow> ChatWSManager" where
  "onmessage P d m =
     (case JSON_parse P d of
        None \<Rightarrow> forward P d m
      | Some data \<Rightarrow>
          if truthy data \<and> getProp data ''type'' = JStr ''auth_success'' then
            (let becameAuthorized = \<not> authorized m
             in if becameAuthorized
                then (let r = authorize P m
                      in if fst r then forward P d (snd r) else resolvePending (snd r))
                else resolvePending (m\<lparr> authorized := True \<rparr>))
          else if truthy data \<and> getProp data ''type'' = JStr ''pong'' then m
          else if truthy data \<and> getProp data ''type'' \<in> set businessTypes \<and> \<not> authorized m
            then (let r = authorize P m
                  in if fst r then forward P d (snd r) else forward P d (resolvePending (snd r)))
          else forward P d m)"

text \<open>\<^verbatim>\<open>ws.onclose\<close>: an exception of \<^verbatim>\<open>onClose\<close> leaves the handler.\<close>

definition onclose :: "platform \<Rightarrow> ChatWSManager \<Rightarrow> ChatWSManager" where
  "onclose P m =
     (let r = invoke P onClose CbClose (stopHeartbeat (setState Closed m))
      in if fst r then snd r
         else if \<not> explicitlyClosed (snd r) then scheduleReconnect (snd r) else snd r)"

definition onerror :: "platform \<Rightarrow> ChatWSManager \<Rightarrow> ChatWSManager" where
  "onerror P m = snd (invoke P onError CbError m)"

text \<open>The callback of the reconnect timer.\<close>

definition reconnectFired :: "platform \<Rightarrow> ChatWSManager \<Rightarrow> ChatWSManager" where
  "reconnectFired P m = connect P (m\<lparr> reconnectTimer := None \<rparr>)"

text \<open>The callback of the timeout of waiter \<open>w\<close>.\<close>

definition authTimeoutFired :: "nat \<Rightarrow> ChatWSManager \<Rightarrow> ChatWSManager" where
  "authTimeoutFired w m =
     (if w < length (waiters m) \<and> \<not> settled (waiters m ! w)
      then m\<lparr> waiters := (waiters m)[w := (waiters m ! w)\<lparr> settled := True, resolved := Some False \<rparr>],
              awaitingAuthResolve := None \<rparr>
      else m)"

text \<open>
  The callback of the heartbeat interval; \<open>now\<close> is \<^verbatim>\<open>Date.now()\<close>. A send that throws is
  swallowed.
\<close>

definition pingFrame :: "platform \<Rightarrow> nat \<Rightarrow> string" where
  "pingFrame P now =
     wsText (JSON_stringify P (JObj [(''type'', JStr ''ping''), (''ts'', JNum (real now))]))"

definition heartbeatFired :: "platform \<Rightarrow> nat \<Rightarrow> ChatWSManager \<Rightarrow> ChatWSManager" where
  "heartbeatFired P now m =
     (if wsOpen m then snd (ws_send (the (ws m)) (pingFrame P now) m) else m)"

subsection \<open>Events\<close>

text \<open>
  What can happen to the manager: the browser delivers an event of socket \<open>i\<close> or
  fires the timer with handle \<open>h\<close>, or the caller invokes a public operation. The
  browser delivers \<^verbatim>\<open>open\<close> only to a connecting socket, \<^verbatim>\<open>message\<close> only to an open one
  and \<^verbatim>\<open>close\<close> only to a socket that is not closed yet; it sets \<^verbatim>\<open>readyState\<close> before
  it runs the handler. \<open>EvClosing\<close> is the start of a closing handshake by the peer,
  which changes \<^verbatim>\<open>readyState\<close> and runs no handler. A timeout is dropped from the pending
  timers when it fires, an interval stays.
\<close>

datatype event =
    EvOpen nat
  | EvMessage nat string
  | EvClosing nat
  | EvClose nat
  | EvError nat
  | EvTimer nat nat
  | CallSetCallbacks ChatWSCallbacks
  | CallUpdateSessionContext context_options
  | CallConnect
  | CallClose
  | CallEnsureAuthorized real
  | CallSend payload

definition fireTimer :: "platform \<Rightarrow> nat \<Rightarrow> nat \<Rightarrow> ChatWSManager \<Rightarrow> ChatWSManager" where
  "fireTimer P h now m =
     (case find (\<lambda>e. fst e = h) (timers m) of
        None \<Rightarrow> m
      | Some e \<Rightarrow>
          (case fst (snd e) of
             Heartbeat \<Rightarrow> heartbeatFired P now m
           | Reconnect \<Rightarrow> reconnectFired P (clearTimer h m)
           | AuthTimeout w \<Rightarrow> authTimeoutFired w (clearTimer h m)))"

fun step :: "platform \<Rightarrow> ChatWSManager \<Rightarrow> event \<Rightarrow> ChatWSManager" where
  "step P m (EvOpen i) =
     (if readyStateOf m i = CONNECTING \<and> i < length (sockets m)
      then onopen P (setReadyState i OPEN m) else m)"
| "step P m (EvMessage i d) = (if readyStateOf m i = OPEN then onmessage P d m else m)"
| "step P m (EvClosing i) = (if readyStateOf m i = OPEN then setReadyState i CLOSING m else m)"
| "step P m (EvClose i) =
     (if readyStateOf m i \<noteq> CLOSED then onclose P (setReadyState i CLOSED m) else m)"
| "step P m (EvError i) = (if i < length (sockets m) then onerror P m else m)"
| "step P m (EvTimer h now) = fireTimer P h now m"
| "step P m (CallSetCallbacks cbs) = setCallbacks cbs m"
| "step P m (CallUpdateSessionContext options) = updateSessionContext options m"
| "step P m CallConnect = connect P m"
| "step P m CallClose = close m"
| "step P m (CallEnsureAuthorized timeoutMs) = snd (ensureAuthorized P timeoutMs m)"
| "step P m (CallSend data) = send P data m"

definition run :: "platform \<Rightarrow> event list \<Rightarrow> ChatWSManager \<Rightarrow> ChatWSManager" where
  "run P evs m = foldl (step P) m evs"

subsection \<open>Sequences of operations, invariants\<close>

text \<open>A sequence of \<^verbatim>\<open>enqueue\<close> calls, in the order of the list.\<close>

definition enqueueAll :: "string option list \<Rightarrow> ChatWSManager \<Rightarrow> ChatWSManager" where
  "enqueueAll ps m = foldl (\<lambda>m p. enqueue p m) m ps"

text \<open>
  Handles of pending timers are positive, were handed out already, and are distinct; and
  a pending reconnect timer is the one recorded in \<open>reconnectTimer\<close>.
\<close>

definition timers_ok :: "ChatWSManager \<Rightarrow> bool" where
  "timers_ok m \<longleftrightarrow>
     (\<forall>e \<in> set (timers m). fst e \<noteq> 0 \<and> fst e \<le> nextHandle m)
     \<and> distinct (map fst (timers m))
     \<and> (\<forall>e \<in> set (timers m). fst (snd e) = Reconnect \<longrightarrow> reconnectTimer m = Some (fst e))"

definition pendingReconnects :: "ChatWSManager \<Rightarrow> (nat \<times> task \<times> real) list" where
  "pendingReconnects m = filter (\<lambda>e. fst (snd e) = Reconnect) (timers m)"

text \<open>The state in which \<^verbatim>\<open>ensureAuthorized\<close> tests the flag a second time.\<close>

definition afterConnect :: "platform \<Rightarrow> ChatWSManager \<Rightarrow> ChatWSManager" where
  "afterConnect P m = (if \<not> wsOpen m then connect P m else m)"

text \<open>
  Callbacks through which \<^verbatim>\<open>connect()\<close> cannot run: they call neither \<^verbatim>\<open>connect\<close> nor
  \<^verbatim>\<open>send\<close>, and they do not replace the callbacks.
\<close>

fun quietAction :: "action \<Rightarrow> bool" where
  "quietAction ActClose = True"
| "quietAction (ActUpdateSessionContext options) = True"
| "quietAction a = False"

definition quietCallback :: "callback option \<Rightarrow> bool" where
  "quietCallback c = (case c of None \<Rightarrow> True | Some cb \<Rightarrow> list_all quietAction (actions cb))"

definition quietCallbacks :: "ChatWSCallbacks \<Rightarrow> bool" where
  "quietCallbacks cbs \<longleftrightarrow>
     quietCallback (onOpen cbs) \<and> quietCallback (onAuthSuccess cbs) \<and> quietCallback (onMessage cbs)
     \<and> quietCallback (onClose cbs) \<and> quietCallback (onError cbs)"

text \<open>
  The events through which \<^verbatim>\<open>connect()\<close> can run: the three operations of the caller that
  call it, and the registration of callbacks that are not quiet.
\<close>

fun invokesConnect :: "event \<Rightarrow> bool" where
  "invokesConnect CallConnect = True"
| "invokesConnect (CallSend data) = True"
| "invokesConnect (CallEnsureAuthorized timeoutMs) = True"
| "invokesConnect (CallSetCallbacks cbs) = (\<not> quietCallbacks cbs)"
| "invokesConnect ev = False"

text \<open>
  The manager is explicitly closed, no reconnect timer is pending, and the registered
  callbacks are quiet. Every event through which \<^verbatim>\<open>connect()\<close> does not run keeps it so.
\<close>

definition closedQuiet :: "ChatWSManager \<Rightarrow> bool" where
  "closedQuiet m \<longleftrightarrow> explicitlyClosed m \<and> pendingReconnects m = [] \<and> quietCallbacks (callbacks m)"

subsection \<open>Concrete scenarios\<close>

text \<open>
  A manager whose transport is open and authorized, with the queue \<open>q\<close> and the send
  script \<open>fs\<close>; and ten messages to queue.
\<close>

definition ten :: "string list" where
  "ten = [''m1'', ''m2'', ''m3'', ''m4'', ''m5'', ''m6'', ''m7'', ''m8'', ''m9'', ''m10'']"

definition openAuthorized :: "string list \<Rightarrow> bool list \<Rightarrow> ChatWSManager" where
  "openAuthorized q fs =
     (init None)\<lparr> ws := Some 0, url := Some ''ws://h/s'', sessionId := Some ''s'', state := Open,
                  sendQueue := map Some q, authorized := True,
                  connectedUrl := Some ''ws://h/s'', connectedSessionId := Some ''s'',
                  sockets := [\<lparr> sock_url = ''ws://h/s'', readyState = OPEN, sent = [] \<rparr>],
                  sendFails := fs \<rparr>"

text \<open>
  A platform that agrees with the built-ins on the texts used in the examples below.
\<close>

definition demoPlatform :: platform where
  \<open>demoPlatform =
     \<lparr> JSON_parse = (\<lambda>s.
         if s = ''{"state":{"token":"abc"}}''
           then Some (JObj [(''state'', JObj [(''token'', JStr ''abc'')])])
         else if s = ''{"type":"auth_success"}''
           then Some (JObj [(''type'', JStr ''auth_success'')])
         else if s = ''{"type":"history","messages":[]}''
           then Some (JObj [(''type'', JStr ''history''), (''messages'', JArr [])])
         else None),
       JSON_stringify = (\<lambda>v.
         if v = JUndefined then None
         else if v = JObj [(''type'', JStr ''authorization''), (''token'', JStr ''Bearer abc'')]
           then Some ''{"type":"authorization","token":"Bearer abc"}''
         else if v = JObj [(''type'', JStr ''fetch_history''), (''session_id'', JStr ''s1'')]
           then Some ''{"type":"fetch_history","session_id":"s1"}''
         else Some ''{}''),
       ToString_other = (\<lambda>v. ''[object Object]''),
       WebSocket_throws = (\<lambda>u. u = []) \<rparr>\<close>

definition demoCredentials :: string where
  \<open>demoCredentials = ''{"state":{"token":"abc"}}''\<close>

definition demoAuthFrame :: string where
  \<open>demoAuthFrame = ''{"type":"authorization","token":"Bearer abc"}''\<close>

definition demoContext :: context_options where
  "demoContext = \<lparr> opt_url = ''wss://host/api/chat/ws/chat/s1'', opt_sessionId = ''s1'',
                    opt_isAssistantMode = False \<rparr>"

text \<open>The manager after \<^verbatim>\<open>updateSessionContext\<close> and \<^verbatim>\<open>connect\<close>, its transport still connecting.\<close>

definition connecting :: "string option \<Rightarrow> ChatWSManager" where
  "connecting st = run demoPlatform [CallUpdateSessionContext demoContext, CallConnect] (init st)"

definition demoAuthSuccess :: string where
  \<open>demoAuthSuccess = ''{"type":"auth_success"}''\<close>

definition demoHistory :: string where
  \<open>demoHistory = ''{"type":"history","messages":[]}''\<close>

text \<open>Callbacks that are all set and call nothing on the manager.\<close>

definition logging :: callback where
  "logging = Callback [] False"

definition allCallbacks :: ChatWSCallbacks where
  "allCallbacks = Callbacks (Some logging) (Some logging) (Some logging) (Some logging) (Some logging)"

text \<open>
  The callbacks of \<^verbatim>\<open>Login.tsx\<close> (lines 2164 to 2173): \<^verbatim>\<open>onOpen\<close> asks for the history of
  the session with \<^verbatim>\<open>chatWSManager.send({ type: 'fetch_history', session_id })\<close>; the
  other four do not call the manager.
\<close>

definition fetchHistory :: jsval where
  "fetchHistory = JObj [(''type'', JStr ''fetch_history''), (''session_id'', JStr ''s1'')]"

definition demoFetchHistory :: string where
  \<open>demoFetchHistory = ''{"type":"fetch_history","session_id":"s1"}''\<close>

definition loginCallbacks :: ChatWSCallbacks where
  "loginCallbacks =
     Callbacks (Some (Callback [ActSend (Value fetchHistory)] False))
               (Some logging) (Some logging) (Some logging) (Some logging)"

text \<open>
  The scenario of the specification: \<^verbatim>\<open>send\<close> before any \<^verbatim>\<open>connect\<close> queues the payload and
  connects; the transport opens and the authorization frame goes out; the caller then
  waits in \<^verbatim>\<open>ensureAuthorized(8000)\<close>.
\<close>

definition awaitingAuth :: ChatWSManager where
  "awaitingAuth =
     run demoPlatform
       [CallUpdateSessionContext demoContext, CallSetCallbacks allCallbacks,
        CallSend (Text ''hi''), EvOpen 0, CallEnsureAuthorized 8000]
       (init (Some demoCredentials))"

text \<open>The fresh manager with its session context set.\<close>

definition contextSet :: ChatWSManager where
  "contextSet = updateSessionContext demoContext (init None)"

text \<open>
  The transport has opened and the peer starts the closing handshake: \<^verbatim>\<open>readyState\<close> is
  CLOSING, and no event has reached the manager yet.
\<close>

definition peerClosing :: ChatWSManager where
  "peerClosing =
     run demoPlatform
       [CallUpdateSessionContext demoContext, CallConnect, EvOpen 0, EvClosing 0] (init None)"

text \<open>The context of another session.\<close>

definition otherContext :: context_options where
  "otherContext = \<lparr> opt_url = ''wss://host/api/chat/ws/chat/s2'', opt_sessionId = ''s2'',
                     opt_isAssistantMode = False \<rparr>"

text \<open>
  A transport that opens after the manager has let go of it. The caller closes the first
  transport and connects again; the close event of the first sets the state back to
  Closed, so the reconnect timer (handle 2) opens a third transport while the second is
  still connecting; the caller closes once more, and then the second transport opens.
\<close>

definition orphanOpened :: ChatWSManager where
  "orphanOpened =
     run demoPlatform
       [CallUpdateSessionContext demoContext, CallConnect, EvOpen 0, CallClose, CallConnect,
        EvClose 0, EvTimer 2 0, CallClose, EvOpen 1]
       (init None)"

text \<open>
  The scenario before the caller waits: the transport is open, the authorization frame
  is out, no answer has arrived.
\<close>

definition openUnauthorized :: ChatWSManager where
  "openUnauthorized =
     run demoPlatform
       [CallUpdateSessionContext demoContext, CallSetCallbacks allCallbacks,
        CallSend (Text ''hi''), EvOpen 0]
       (init (Some demoCredentials))"

text \<open>
  The largest double below 1, and the jitter it gives: the double nearest to
  \<open>300 - 300 / 2 ^ 53\<close>.
\<close>

definition maxRandom :: real where
  "maxRandom = 1 - 1 / 2 ^ 53"

definition maxJitter :: real where
  "maxJitter = 300 - 1 / 2 ^ 44"




section \<open>The outbound queue is bounded (C3)\<close>

lemma enqueue_queue: "sendQueue (enqueue p m) = (if length (sendQueue m) \<ge> MAX_QUEUE then tl (sendQueue m) else sendQueue m) @ [p]"
  by (simp add: enqueue_def Let_def)

lemma enqueue_drop:
  assumes "length (sendQueue m) \<le> MAX_QUEUE"
  shows "drop (length (sendQueue (enqueue p m) @ ps) - MAX_QUEUE) (sendQueue (enqueue p m) @ ps)
       = drop (length (sendQueue m @ p # ps) - MAX_QUEUE) (sendQueue m @ p # ps)"
proof (cases "length (sendQueue m) < MAX_QUEUE")
  case True
  then show ?thesis by (simp add: enqueue_queue)
next
  case False
  with assms have full: "length (sendQueue m) = MAX_QUEUE" by simp
  then obtain x xs where q: "sendQueue m = x # xs" and xs: "length xs = 99"
    by (cases "sendQueue m") (auto simp: MAX_QUEUE_def)
  show ?thesis
    by (simp add: enqueue_queue q xs MAX_QUEUE_def)
qed

lemma enqueue_length: "length (sendQueue m) \<le> MAX_QUEUE \<Longrightarrow> length (sendQueue (enqueue p m)) \<le> MAX_QUEUE"
  by (cases "sendQueue m") (auto simp: enqueue_queue MAX_QUEUE_def)

lemma enqueueAll_drop:
  "length (sendQueue m) \<le> MAX_QUEUE \<Longrightarrow>
   sendQueue (enqueueAll ps m) = drop (length (sendQueue m @ ps) - MAX_QUEUE) (sendQueue m @ ps)"
proof (induction ps arbitrary: m)
  case Nil
  then show ?case by (simp add: enqueueAll_def)
next
  case (Cons p ps)
  have "sendQueue (enqueueAll (p # ps) m) = sendQueue (enqueueAll ps (enqueue p m))"
    by (simp add: enqueueAll_def)
  also have "\<dots> = drop (length (sendQueue (enqueue p m) @ ps) - MAX_QUEUE) (sendQueue (enqueue p m) @ ps)"
    by (rule Cons.IH [OF enqueue_length [OF Cons.prems]])
  also have "\<dots> = drop (length (sendQueue m @ p # ps) - MAX_QUEUE) (sendQueue m @ p # ps)"
    by (rule enqueue_drop [OF Cons.prems])
  finally show ?case .
qed

text \<open>
  Claim C3. Over any sequence of \<^verbatim>\<open>enqueue\<close> calls the queue never holds more than
  \<open>MAX_QUEUE = 100\<close> entries; at capacity the oldest entry is dropped before the new one
  is appended; and 101 calls on the empty queue leave exactly the last 100 payloads, in
  their order, without the first one.
\<close>

theorem enqueue_bounded:
  assumes "length (sendQueue m) \<le> MAX_QUEUE"
  shows "MAX_QUEUE = 100
    \<and> length (sendQueue (enqueueAll ps m)) \<le> MAX_QUEUE
    \<and> (length (sendQueue m) = MAX_QUEUE \<longrightarrow> sendQueue (enqueue p m) = tl (sendQueue m) @ [p])
    \<and> (length (sendQueue m) < MAX_QUEUE \<longrightarrow> sendQueue (enqueue p m) = sendQueue m @ [p])
    \<and> (sendQueue m = [] \<and> length ps = 101 \<longrightarrow>
          length (sendQueue (enqueueAll ps m)) = 100
        \<and> sendQueue (enqueueAll ps m) = tl ps
        \<and> (distinct ps \<longrightarrow> hd ps \<notin> set (sendQueue (enqueueAll ps m))))"
proof -
  have q: "sendQueue (enqueueAll ps m) = drop (length (sendQueue m @ ps) - MAX_QUEUE) (sendQueue m @ ps)"
    by (rule enqueueAll_drop [OF assms])
  have bound: "length (sendQueue (enqueueAll ps m)) \<le> MAX_QUEUE"
    using assms by (simp add: q)
  have last100: "sendQueue (enqueueAll ps m) = tl ps" if "sendQueue m = []" "length ps = 101"
    using that by (simp add: q MAX_QUEUE_def drop_Suc)
  have absent: "hd ps \<notin> set (tl ps)" if "distinct ps" "length ps = 101"
    using that by (cases ps) auto
  show ?thesis
    using bound last100 absent
    by (auto simp: MAX_QUEUE_def enqueue_queue)
qed

text \<open>The theorem at 101 distinct payloads enqueued into the fresh manager.\<close>

theorem enqueue_bounded_witness:
  "length (sendQueue (init None)) \<le> MAX_QUEUE
   \<and> length (sendQueue (enqueueAll (map (\<lambda>n. Some (replicate n CHR ''a'')) [0..<101]) (init None))) = 100
   \<and> sendQueue (enqueueAll (map (\<lambda>n. Some (replicate n CHR ''a'')) [0..<101]) (init None))
       = tl (map (\<lambda>n. Some (replicate n CHR ''a'')) [0..<101])
   \<and> hd (map (\<lambda>n. Some (replicate n CHR ''a'')) [0..<101])
       \<notin> set (sendQueue (enqueueAll (map (\<lambda>n. Some (replicate n CHR ''a'')) [0..<101]) (init None)))
   \<and> sendQueue (enqueue (Some ''x'') (init None)) = sendQueue (init None) @ [Some ''x'']
   \<and> sendQueue (enqueue (Some ''x'') (enqueueAll (map (\<lambda>n. Some (replicate n CHR ''a'')) [0..<101]) (init None)))
       = tl (sendQueue (enqueueAll (map (\<lambda>n. Some (replicate n CHR ''a'')) [0..<101]) (init None))) @ [Some ''x'']"
proof -
  let ?ps = "map (\<lambda>n. Some (replicate n CHR ''a'')) [0..<101]"
  let ?full = "enqueueAll ?ps (init None)"
  have h: "length (sendQueue (init None)) \<le> MAX_QUEUE" by (simp add: init_def)
  have e: "sendQueue (init None) = []" by (simp add: init_def)
  have l: "length ?ps = 101" by simp
  have d: "distinct ?ps" by (simp add: distinct_map inj_on_def)
  have lt: "length (sendQueue (init None)) < MAX_QUEUE" by (simp add: init_def MAX_QUEUE_def)
  note first = enqueue_bounded [OF h, of ?ps "Some ''x''"]
  from first e l have len: "length (sendQueue ?full) = 100" and max: "MAX_QUEUE = 100" by blast+
  then have h2: "length (sendQueue ?full) \<le> MAX_QUEUE" and cap: "length (sendQueue ?full) = MAX_QUEUE"
    by simp_all
  from enqueue_bounded [OF h2, of "[]" "Some ''x''"] cap
  have "sendQueue (enqueue (Some ''x'') ?full) = tl (sendQueue ?full) @ [Some ''x'']" by blast
  with first h e l d lt show ?thesis
    by blast
qed


section \<open>Flushing the queue (C1)\<close>

lemma readyStateOf_OPEN_len: "readyStateOf m i = OPEN \<Longrightarrow> i < length (sockets m)"
  by (simp add: readyStateOf_def split: if_splits)

lemma readyStateOf_OPEN_iff:
  "readyStateOf m i = OPEN \<longleftrightarrow> i < length (sockets m) \<and> readyState (sockets m ! i) = OPEN"
  by (simp add: readyStateOf_def)

lemma flushLoop_Nil: "sendQueue m = [] \<Longrightarrow> flushLoop i m = m"
  by (subst flushLoop.simps) simp

lemma flushLoop_None: "sendQueue m = None # xs \<Longrightarrow> flushLoop i m = m\<lparr> sendQueue := xs \<rparr>"
  by (subst flushLoop.simps) simp

lemma ws_send_ok:
  assumes "readyStateOf m i = OPEN" "sendFails m = False # fs"
  shows "ws_send i x m = (False, m\<lparr> sendFails := fs,
                    sockets := (sockets m)[i := (sockets m ! i)\<lparr> sent := sent (sockets m ! i) @ [x] \<rparr>] \<rparr>)"
    using assms by (simp add: ws_send_def nextSendFails_def Let_def)

lemma ws_send_fail:
  assumes "sendFails m = True # fs"
  shows "ws_send i x m = (True, m\<lparr> sendFails := fs \<rparr>)"
    using assms by (simp add: ws_send_def nextSendFails_def Let_def)

lemma ws_send_ok':
  assumes "readyStateOf m i = OPEN" "\<not> nextSendFails m"
  shows "ws_send i x m = (False, m\<lparr> sendFails := tl (sendFails m),
                    sockets := (sockets m)[i := (sockets m ! i)\<lparr> sent := sent (sockets m ! i) @ [x] \<rparr>] \<rparr>)"
    using assms by (simp add: ws_send_def Let_def)

lemma flushLoop_Cons:
  "sendQueue m = Some x # xs \<Longrightarrow>
   flushLoop i m = (if fst (ws_send i x (m\<lparr> sendQueue := xs \<rparr>)) then snd (ws_send i x (m\<lparr> sendQueue := xs \<rparr>))
                    else flushLoop i (snd (ws_send i x (m\<lparr> sendQueue := xs \<rparr>))))"
  by (subst flushLoop.simps) (simp add: Let_def)

text \<open>
  While the entries are strings and \<^verbatim>\<open>send\<close> does not throw, the loop sends them in the
  order of the queue.
\<close>

lemma flushLoop_prefix:
  assumes "readyStateOf m i = OPEN"
    and "\<forall>f \<in> set (take (length xs) (sendFails m)). \<not> f"
    and "sendQueue m = map Some xs @ rest"
  shows "flushLoop i m =
           flushLoop i (m\<lparr> sendQueue := rest, sendFails := drop (length xs) (sendFails m),
              sockets := (sockets m)[i := (sockets m ! i)\<lparr> sent := sent (sockets m ! i) @ xs \<rparr>] \<rparr>)"
  using assms
proof (induction xs arbitrary: m)
  case Nil
  from Nil have len: "i < length (sockets m)" by (simp add: readyStateOf_OPEN_len)
  have "m\<lparr> sendQueue := rest, sendFails := sendFails m, sockets := sockets m \<rparr> = m"
    using Nil.prems(3) by simp
  then show ?case using len by (simp add: list_update_same_conv)
next
  case (Cons x xs)
  from Cons.prems have q: "sendQueue m = Some x # (map Some xs @ rest)" by simp
  from Cons.prems have len: "i < length (sockets m)" by (simp add: readyStateOf_OPEN_len)
  let ?m0 = "m\<lparr> sendQueue := map Some xs @ rest \<rparr>"
  let ?m1 = "m\<lparr> sendQueue := map Some xs @ rest, sendFails := tl (sendFails m),
                    sockets := (sockets m)[i := (sockets m ! i)\<lparr> sent := sent (sockets m ! i) @ [x] \<rparr>] \<rparr>"
  have r: "readyStateOf ?m0 i = OPEN" using Cons.prems(1) by (simp add: readyStateOf_OPEN_iff)
  have f: "\<not> nextSendFails ?m0" using Cons.prems(2)
    by (cases "sendFails m") (simp_all add: nextSendFails_def)
  have s: "ws_send i x ?m0 = (False, ?m1)"
    by (simp add: ws_send_ok' [OF r f])
  have "flushLoop i m = flushLoop i ?m1"
    by (simp add: flushLoop_Cons [OF q] s)
  also have "\<dots> = flushLoop i (?m1\<lparr> sendQueue := rest, sendFails := drop (length xs) (sendFails ?m1),
              sockets := (sockets ?m1)[i := (sockets ?m1 ! i)\<lparr> sent := sent (sockets ?m1 ! i) @ xs \<rparr>] \<rparr>)"
  proof (rule Cons.IH)
    show "readyStateOf ?m1 i = OPEN" using Cons.prems(1) by (simp add: readyStateOf_OPEN_iff)
    show "\<forall>f \<in> set (take (length xs) (sendFails ?m1)). \<not> f"
      using Cons.prems(2) by (cases "sendFails m") auto
    show "sendQueue ?m1 = map Some xs @ rest" by simp
  qed
  also have "\<dots> = flushLoop i (m\<lparr> sendQueue := rest, sendFails := drop (length (x # xs)) (sendFails m),
              sockets := (sockets m)[i := (sockets m ! i)\<lparr> sent := sent (sockets m ! i) @ x # xs \<rparr>] \<rparr>)"
    using len by (simp add: drop_Suc)
  finally show ?case .
qed

text \<open>The first \<^verbatim>\<open>send\<close> that throws ends the loop; its message is gone from the queue.\<close>

lemma flushLoop_fail:
  assumes "readyStateOf m i = OPEN"
    and "sendFails m = replicate (length xs) False @ True # fs"
    and "sendQueue m = map Some xs @ Some y # rest"
  shows "flushLoop i m =
           m\<lparr> sendQueue := rest, sendFails := fs,
              sockets := (sockets m)[i := (sockets m ! i)\<lparr> sent := sent (sockets m ! i) @ xs \<rparr>] \<rparr>"
proof -
  let ?m1 = "m\<lparr> sendQueue := Some y # rest, sendFails := drop (length xs) (sendFails m),
              sockets := (sockets m)[i := (sockets m ! i)\<lparr> sent := sent (sockets m ! i) @ xs \<rparr>] \<rparr>"
  have nf: "\<forall>f \<in> set (take (length xs) (sendFails m)). \<not> f" by (simp add: assms(2))
  have "flushLoop i m = flushLoop i ?m1"
    by (rule flushLoop_prefix [OF assms(1) nf assms(3)])
  also have "\<dots> = snd (ws_send i y (?m1\<lparr> sendQueue := rest \<rparr>))"
    by (subst flushLoop_Cons [where x = y and xs = rest])
       (simp_all add: ws_send_fail [where fs = fs] assms(2))
  also have "\<dots> = m\<lparr> sendQueue := rest, sendFails := fs,
              sockets := (sockets m)[i := (sockets m ! i)\<lparr> sent := sent (sockets m ! i) @ xs \<rparr>] \<rparr>"
    by (simp add: ws_send_fail [where fs = fs] assms(2))
  finally show ?thesis .
qed

text \<open>Without a failure and without an \<^verbatim>\<open>undefined\<close> entry the whole queue is sent.\<close>

lemma flushLoop_ok:
  assumes "readyStateOf m i = OPEN"
    and "\<forall>f \<in> set (take (length xs) (sendFails m)). \<not> f"
    and "sendQueue m = map Some xs"
  shows "flushLoop i m =
           m\<lparr> sendQueue := [], sendFails := drop (length xs) (sendFails m),
              sockets := (sockets m)[i := (sockets m ! i)\<lparr> sent := sent (sockets m ! i) @ xs \<rparr>] \<rparr>"
proof -
  from assms(3) have q: "sendQueue m = map Some xs @ []" by simp
  show ?thesis
    by (simp add: flushLoop_prefix [OF assms(1,2) q] flushLoop_Nil)
qed

text \<open>
  An entry that is \<^verbatim>\<open>undefined\<close> ends the loop as well: it is dropped, and what was queued
  behind it stays.
\<close>

lemma flushLoop_undefined:
  assumes "readyStateOf m i = OPEN"
    and "\<forall>f \<in> set (take (length xs) (sendFails m)). \<not> f"
    and "sendQueue m = map Some xs @ None # rest"
  shows "flushLoop i m =
           m\<lparr> sendQueue := rest, sendFails := drop (length xs) (sendFails m),
              sockets := (sockets m)[i := (sockets m ! i)\<lparr> sent := sent (sockets m ! i) @ xs \<rparr>] \<rparr>"
  by (simp add: flushLoop_prefix [OF assms] flushLoop_None [where xs = rest])

text \<open>
  Claim C1, at the input of its own example: ten queued messages, the transport open and
  authorized, the fifth \<^verbatim>\<open>send\<close> throwing. The loop sends the first four in order and
  stops, but \<^verbatim>\<open>shift()\<close> has already removed the fifth message when its \<^verbatim>\<open>send\<close> throws,
  and the \<^verbatim>\<open>catch\<close> does not put it back: the queue is left with messages six to ten.
\<close>

theorem flushQueue_loses_failed_message:
  "sent (sockets (flushQueue (openAuthorized ten [False, False, False, False, True])) ! 0)
     = [''m1'', ''m2'', ''m3'', ''m4'']
   \<and> sendQueue (flushQueue (openAuthorized ten [False, False, False, False, True]))
     = [Some ''m6'', Some ''m7'', Some ''m8'', Some ''m9'', Some ''m10'']
   \<and> Some ''m5'' \<notin> set (sendQueue (flushQueue (openAuthorized ten [False, False, False, False, True])))"
proof -
  let ?m = "openAuthorized ten [False, False, False, False, True]"
  have r: "readyStateOf ?m 0 = OPEN" by (simp add: openAuthorized_def readyStateOf_def init_def)
  have f: "sendFails ?m = replicate (length [''m1'', ''m2'', ''m3'', ''m4'']) False @ True # []"
    by (simp add: openAuthorized_def init_def numeral_eq_Suc)
  have q: "sendQueue ?m = map Some [''m1'', ''m2'', ''m3'', ''m4''] @ Some ''m5''
              # [Some ''m6'', Some ''m7'', Some ''m8'', Some ''m9'', Some ''m10'']"
    by (simp add: openAuthorized_def ten_def init_def)
  have "flushQueue ?m = flushLoop 0 ?m"
    using r by (simp add: flushQueue_def) (simp add: openAuthorized_def init_def)
  then show ?thesis
    by (simp add: flushLoop_fail [OF r f q]) (simp add: openAuthorized_def init_def)
qed

text \<open>Read off the theorem: five of the ten messages are left, and four were sent.\<close>

theorem flushQueue_loses_failed_message_count:
  "length (sendQueue (flushQueue (openAuthorized ten [False, False, False, False, True]))) = 5
   \<and> length (sent (sockets (flushQueue (openAuthorized ten [False, False, False, False, True])) ! 0)) = 4"
  using flushQueue_loses_failed_message by simp


section \<open>What the operations leave alone\<close>

text \<open>
  The credential store is never written, and the trace and the promises of
  \<^verbatim>\<open>ensureAuthorized\<close> are out of reach of the operations a callback can call.
\<close>

lemma clearTimer_keeps [simp]:
  "storage (clearTimer h m) = storage m"
  "trace (clearTimer h m) = trace m"
  "waiters (clearTimer h m) = waiters m"
  "awaitingAuthResolve (clearTimer h m) = awaitingAuthResolve m"
  "callbacks (clearTimer h m) = callbacks m"
  by (simp_all add: clearTimer_def)

lemma setTimer_keeps [simp]:
  "storage (snd (setTimer t d m)) = storage m"
  "trace (snd (setTimer t d m)) = trace m"
  "waiters (snd (setTimer t d m)) = waiters m"
  "awaitingAuthResolve (snd (setTimer t d m)) = awaitingAuthResolve m"
  "callbacks (snd (setTimer t d m)) = callbacks m"
  by (simp_all add: setTimer_def Let_def)

lemma stopHeartbeat_keeps [simp]:
  "storage (stopHeartbeat m) = storage m"
  "trace (stopHeartbeat m) = trace m"
  "waiters (stopHeartbeat m) = waiters m"
  "awaitingAuthResolve (stopHeartbeat m) = awaitingAuthResolve m"
  "callbacks (stopHeartbeat m) = callbacks m"
  by (simp_all add: stopHeartbeat_def split: option.splits)

lemma startHeartbeat_keeps [simp]:
  "storage (startHeartbeat m) = storage m"
  "trace (startHeartbeat m) = trace m"
  "waiters (startHeartbeat m) = waiters m"
  "awaitingAuthResolve (startHeartbeat m) = awaitingAuthResolve m"
  "callbacks (startHeartbeat m) = callbacks m"
  by (simp_all add: startHeartbeat_def Let_def)

lemma clearReconnectTimer_keeps [simp]:
  "storage (clearReconnectTimer m) = storage m"
  "trace (clearReconnectTimer m) = trace m"
  "waiters (clearReconnectTimer m) = waiters m"
  "awaitingAuthResolve (clearReconnectTimer m) = awaitingAuthResolve m"
  "callbacks (clearReconnectTimer m) = callbacks m"
  by (simp_all add: clearReconnectTimer_def split: option.splits)

lemma scheduleReconnect_keeps [simp]:
  "storage (scheduleReconnect m) = storage m"
  "trace (scheduleReconnect m) = trace m"
  "waiters (scheduleReconnect m) = waiters m"
  "awaitingAuthResolve (scheduleReconnect m) = awaitingAuthResolve m"
  "callbacks (scheduleReconnect m) = callbacks m"
  by (simp_all add: scheduleReconnect_def Math_random_def Let_def split: list.splits)

lemma setState_keeps [simp]:
  "storage (setState s m) = storage m"
  "trace (setState s m) = trace m"
  "waiters (setState s m) = waiters m"
  "awaitingAuthResolve (setState s m) = awaitingAuthResolve m"
  "callbacks (setState s m) = callbacks m"
  by (simp_all add: setState_def)

lemma setReadyState_keeps [simp]:
  "storage (setReadyState i r m) = storage m"
  "trace (setReadyState i r m) = trace m"
  "waiters (setReadyState i r m) = waiters m"
  "awaitingAuthResolve (setReadyState i r m) = awaitingAuthResolve m"
  "callbacks (setReadyState i r m) = callbacks m"
  by (simp_all add: setReadyState_def)

lemma ws_send_keeps [simp]:
  "storage (snd (ws_send i d m)) = storage m"
  "trace (snd (ws_send i d m)) = trace m"
  "waiters (snd (ws_send i d m)) = waiters m"
  "awaitingAuthResolve (snd (ws_send i d m)) = awaitingAuthResolve m"
  "callbacks (snd (ws_send i d m)) = callbacks m"
  by (simp_all add: ws_send_def Let_def)

lemma ws_close_keeps [simp]:
  "storage (snd (ws_close i m)) = storage m"
  "trace (snd (ws_close i m)) = trace m"
  "waiters (snd (ws_close i m)) = waiters m"
  "awaitingAuthResolve (snd (ws_close i m)) = awaitingAuthResolve m"
  "callbacks (snd (ws_close i m)) = callbacks m"
  by (simp_all add: ws_close_def Let_def)

lemma new_WebSocket_keeps [simp]:
  "storage (snd (new_WebSocket P u m)) = storage m"
  "trace (snd (new_WebSocket P u m)) = trace m"
  "waiters (snd (new_WebSocket P u m)) = waiters m"
  "awaitingAuthResolve (snd (new_WebSocket P u m)) = awaitingAuthResolve m"
  "callbacks (snd (new_WebSocket P u m)) = callbacks m"
  by (simp_all add: new_WebSocket_def)

lemma enqueue_keeps [simp]:
  "storage (enqueue p m) = storage m"
  "trace (enqueue p m) = trace m"
  "waiters (enqueue p m) = waiters m"
  "awaitingAuthResolve (enqueue p m) = awaitingAuthResolve m"
  "callbacks (enqueue p m) = callbacks m"
  by (simp_all add: enqueue_def Let_def)

lemma close_keeps [simp]:
  "storage (close m) = storage m"
  "trace (close m) = trace m"
  "waiters (close m) = waiters m"
  "awaitingAuthResolve (close m) = awaitingAuthResolve m"
  "callbacks (close m) = callbacks m"
  by (simp_all add: close_def Let_def split: option.splits)

lemma openTransport_keeps [simp]:
  "storage (openTransport P m) = storage m"
  "trace (openTransport P m) = trace m"
  "waiters (openTransport P m) = waiters m"
  "awaitingAuthResolve (openTransport P m) = awaitingAuthResolve m"
  "callbacks (openTransport P m) = callbacks m"
  by (simp_all add: openTransport_def Let_def split: option.splits)

lemma connect_keeps [simp]:
  "storage (connect P m) = storage m"
  "trace (connect P m) = trace m"
  "waiters (connect P m) = waiters m"
  "awaitingAuthResolve (connect P m) = awaitingAuthResolve m"
  "callbacks (connect P m) = callbacks m"
  by (simp_all add: connect_def Let_def)

lemma updateSessionContext_keeps [simp]:
  "storage (updateSessionContext options m) = storage m"
  "trace (updateSessionContext options m) = trace m"
  "waiters (updateSessionContext options m) = waiters m"
  "awaitingAuthResolve (updateSessionContext options m) = awaitingAuthResolve m"
  "callbacks (updateSessionContext options m) = callbacks m"
  by (simp_all add: updateSessionContext_def Let_def)

lemma send_keeps [simp]:
  "storage (send P data m) = storage m"
  "trace (send P data m) = trace m"
  "waiters (send P data m) = waiters m"
  "awaitingAuthResolve (send P data m) = awaitingAuthResolve m"
  "callbacks (send P data m) = callbacks m"
  by (simp_all add: send_def Let_def)

lemma setCallbacks_keeps [simp]:
  "storage (setCallbacks cbs m) = storage m"
  "trace (setCallbacks cbs m) = trace m"
  "waiters (setCallbacks cbs m) = waiters m"
  "awaitingAuthResolve (setCallbacks cbs m) = awaitingAuthResolve m"
  "callbacks (setCallbacks cbs m) = cbs"
  by (simp_all add: setCallbacks_def)

lemma perform_keeps [simp]:
  "storage (perform P m a) = storage m"
  "trace (perform P m a) = trace m"
  "waiters (perform P m a) = waiters m"
  "awaitingAuthResolve (perform P m a) = awaitingAuthResolve m"
  by (cases a; simp)+

lemma performs_keeps [simp]:
  "storage (foldl (perform P) m as) = storage m"
  "trace (foldl (perform P) m as) = trace m"
  "waiters (foldl (perform P) m as) = waiters m"
  "awaitingAuthResolve (foldl (perform P) m as) = awaitingAuthResolve m"
  by (induction as arbitrary: m; simp)+

text \<open>A callback leaves one entry in the trace, whatever it calls.\<close>

lemma invoke_keeps [simp]:
  "storage (snd (invoke P f e m)) = storage m"
  "waiters (snd (invoke P f e m)) = waiters m"
  "awaitingAuthResolve (snd (invoke P f e m)) = awaitingAuthResolve m"
  "trace (snd (invoke P f e m)) = trace m @ (if f (callbacks m) = None then [] else [e])"
  by (simp_all add: invoke_def split: option.splits)

lemma invoke_unset: "f (callbacks m) = None \<Longrightarrow> invoke P f e m = (False, m)"
  by (simp add: invoke_def)

lemma invoke_inert:
  "f (callbacks m) = Some (Callback [] t) \<Longrightarrow> invoke P f e m = (t, m\<lparr> trace := trace m @ [e] \<rparr>)"
  by (simp add: invoke_def)

text \<open>\<^verbatim>\<open>flushQueue\<close> touches the queue, the send script and the sockets, nothing else.\<close>

lemma ws_send_frame:
  "snd (ws_send i d m) =
     m\<lparr> sendFails := sendFails (snd (ws_send i d m)), sockets := sockets (snd (ws_send i d m)) \<rparr>"
  by (simp add: ws_send_def Let_def)

lemma flushLoop_frame:
  "flushLoop i m =
     m\<lparr> sendQueue := sendQueue (flushLoop i m), sendFails := sendFails (flushLoop i m),
        sockets := sockets (flushLoop i m) \<rparr>"
proof (induction i m rule: flushLoop.induct)
  case (1 i m)
  show ?case
  proof (cases "sendQueue m")
    case Nil
    then show ?thesis by (simp add: flushLoop_Nil)
  next
    case (Cons item xs)
    show ?thesis
    proof (cases item)
      case None
      with Cons show ?thesis by (simp add: flushLoop_None)
    next
      case (Some x)
      with Cons have q: "sendQueue m = Some x # xs" by simp
      let ?r = "ws_send i x (m\<lparr> sendQueue := xs \<rparr>)"
      show ?thesis
      proof (cases "fst ?r")
        case True
        then have "flushLoop i m = snd ?r" by (simp add: flushLoop_Cons [OF q])
        then show ?thesis by (simp add: ws_send_def Let_def)
      next
        case False
        then have e: "flushLoop i m = flushLoop i (snd ?r)" by (simp add: flushLoop_Cons [OF q])
        have "flushLoop i (snd ?r) =
          (snd ?r)\<lparr> sendQueue := sendQueue (flushLoop i (snd ?r)),
                    sendFails := sendFails (flushLoop i (snd ?r)),
                    sockets := sockets (flushLoop i (snd ?r)) \<rparr>"
          using False by (intro "1.IH" [OF Cons Some]) simp_all
        also have "\<dots> = m\<lparr> sendQueue := sendQueue (flushLoop i (snd ?r)),
                    sendFails := sendFails (flushLoop i (snd ?r)),
                    sockets := sockets (flushLoop i (snd ?r)) \<rparr>"
          by (subst ws_send_frame) simp
        finally show ?thesis by (simp add: e)
      qed
    qed
  qed
qed

lemma flushQueue_frame:
  "flushQueue m =
     m\<lparr> sendQueue := sendQueue (flushQueue m), sendFails := sendFails (flushQueue m),
        sockets := sockets (flushQueue m) \<rparr>"
proof (cases "ws m")
  case None
  then show ?thesis by (simp add: flushQueue_def)
next
  case (Some i)
  show ?thesis
  proof (cases "readyStateOf m i \<noteq> OPEN \<or> \<not> authorized m")
    case True
    then show ?thesis by (simp add: flushQueue_def Some)
  next
    case False
    then have "flushQueue m = flushLoop i m" by (simp add: flushQueue_def Some)
    then show ?thesis using flushLoop_frame [of i m] by simp
  qed
qed

lemma flushQueue_fields [simp]:
  "authorized (flushQueue m) = authorized m"
  "trace (flushQueue m) = trace m"
  "callbacks (flushQueue m) = callbacks m"
  "waiters (flushQueue m) = waiters m"
  "awaitingAuthResolve (flushQueue m) = awaitingAuthResolve m"
  "timers (flushQueue m) = timers m"
  "nextHandle (flushQueue m) = nextHandle m"
  "reconnectTimer (flushQueue m) = reconnectTimer m"
  "heartbeatTimer (flushQueue m) = heartbeatTimer m"
  "explicitlyClosed (flushQueue m) = explicitlyClosed m"
  "state (flushQueue m) = state m"
  "stateLog (flushQueue m) = stateLog m"
  "ws (flushQueue m) = ws m"
  "url (flushQueue m) = url m"
  "sessionId (flushQueue m) = sessionId m"
  "storage (flushQueue m) = storage m"
  by (subst flushQueue_frame, simp)+

lemma sendAuthorization_keeps [simp]:
  "storage (sendAuthorization P m) = storage m"
  "trace (sendAuthorization P m) = trace m"
  "waiters (sendAuthorization P m) = waiters m"
  "awaitingAuthResolve (sendAuthorization P m) = awaitingAuthResolve m"
  "callbacks (sendAuthorization P m) = callbacks m"
  by (simp_all add: sendAuthorization_def split: option.splits)

lemma resolvePending_fields [simp]:
  "awaitingAuthResolve (resolvePending m) = None"
  "trace (resolvePending m) = trace m"
  "authorized (resolvePending m) = authorized m"
  "callbacks (resolvePending m) = callbacks m"
  "sendQueue (resolvePending m) = sendQueue m"
  "sockets (resolvePending m) = sockets m"
  "state (resolvePending m) = state m"
  "ws (resolvePending m) = ws m"
  "sendFails (resolvePending m) = sendFails m"
  "storage (resolvePending m) = storage m"
  by (simp_all add: resolvePending_def resolveWaiter_def clearTimer_def split: option.splits)

lemma resolvePending_waiter:
  assumes "awaitingAuthResolve m = Some w" and "w < length (waiters m)"
    and "\<not> settled (waiters m ! w)"
  shows "waiters (resolvePending m)
           = (waiters m)[w := (waiters m ! w)\<lparr> settled := True, resolved := Some True \<rparr>]"
    and "timers (resolvePending m) = filter (\<lambda>e. fst e \<noteq> timer (waiters m ! w)) (timers m)"
  using assms by (simp_all add: resolvePending_def resolveWaiter_def clearTimer_def)


section \<open>Timers: an invariant of the manager\<close>

lemma timers_ok_cong:
  "timers m' = timers m \<Longrightarrow> nextHandle m' = nextHandle m \<Longrightarrow> reconnectTimer m' = reconnectTimer m
   \<Longrightarrow> timers_ok m' = timers_ok m"
  by (simp add: timers_ok_def)

lemma pendingReconnects_le_1:
  assumes "timers_ok m"
  shows "length (pendingReconnects m) \<le> 1"
proof -
  let ?hs = "map fst (pendingReconnects m)"
  have d: "distinct ?hs"
    using assms by (simp add: timers_ok_def pendingReconnects_def distinct_map_filter)
  have same: "x = y" if "x \<in> set ?hs" "y \<in> set ?hs" for x y
  proof -
    from that obtain e e' where "e \<in> set (timers m)" "fst (snd e) = Reconnect" "x = fst e"
      "e' \<in> set (timers m)" "fst (snd e') = Reconnect" "y = fst e'"
      by (auto simp: pendingReconnects_def)
    with assms have "reconnectTimer m = Some x" "reconnectTimer m = Some y"
      unfolding timers_ok_def by blast+
    then show ?thesis by simp
  qed
  show ?thesis
  proof (cases ?hs)
    case Nil
    then show ?thesis by simp
  next
    case (Cons x xs)
    show ?thesis
    proof (cases xs)
      case Nil
      with Cons have "length ?hs = 1" by simp
      then show ?thesis by simp
    next
      case (Cons y ys)
      with \<open>?hs = x # xs\<close> have "x \<in> set ?hs" "y \<in> set ?hs" "x \<noteq> y"
        using d by auto
      with same show ?thesis by blast
    qed
  qed
qed

lemma timers_okD:
  assumes "timers_ok m" and "e \<in> set (timers m)"
  shows "fst e \<noteq> 0" and "fst e \<le> nextHandle m"
    and "fst (snd e) = Reconnect \<Longrightarrow> reconnectTimer m = Some (fst e)"
  using assms unfolding timers_ok_def by blast+

lemma timers_okI:
  assumes "\<And>e. e \<in> set (timers m) \<Longrightarrow> fst e \<noteq> 0 \<and> fst e \<le> nextHandle m"
    and "distinct (map fst (timers m))"
    and "\<And>e. e \<in> set (timers m) \<Longrightarrow> fst (snd e) = Reconnect \<Longrightarrow> reconnectTimer m = Some (fst e)"
  shows "timers_ok m"
  using assms unfolding timers_ok_def by blast

lemma no_pending_if_falsy:
  assumes "timers_ok m" and "\<not> truthy_handle (reconnectTimer m)"
  shows "pendingReconnects m = []"
proof -
  have "fst (snd e) \<noteq> Reconnect" if "e \<in> set (timers m)" for e
  proof
    assume "fst (snd e) = Reconnect"
    with timers_okD [OF assms(1) that] have "reconnectTimer m = Some (fst e)" "fst e \<noteq> 0"
      by simp_all
    with assms(2) show False by (simp add: truthy_handle_def)
  qed
  then show ?thesis by (simp add: pendingReconnects_def filter_empty_conv)
qed

lemma timers_ok_clearTimer: "timers_ok m \<Longrightarrow> timers_ok (clearTimer h m)"
  unfolding timers_ok_def clearTimer_def by (simp add: distinct_map_filter)

lemma timers_ok_setTimer:
  assumes "timers_ok m" and "t \<noteq> Reconnect"
  shows "timers_ok (snd (setTimer t d m))"
proof (rule timers_okI)
  let ?m' = "snd (setTimer t d m)"
  have tm: "timers ?m' = timers m @ [(Suc (nextHandle m), t, d)]"
    and nh: "nextHandle ?m' = Suc (nextHandle m)"
    and rt: "reconnectTimer ?m' = reconnectTimer m"
    by (simp_all add: setTimer_def Let_def)
  show "fst e \<noteq> 0 \<and> fst e \<le> nextHandle ?m'" if "e \<in> set (timers ?m')" for e
    using that timers_okD(1,2) [OF assms(1), of e] by (auto simp: tm nh)
  have "Suc (nextHandle m) \<notin> fst ` set (timers m)"
  proof
    assume "Suc (nextHandle m) \<in> fst ` set (timers m)"
    then obtain e where e: "e \<in> set (timers m)" "fst e = Suc (nextHandle m)" by auto
    with timers_okD(2) [OF assms(1) e(1)] show False by simp
  qed
  then show "distinct (map fst (timers ?m'))"
    using assms(1) by (simp add: tm timers_ok_def)
  show "reconnectTimer ?m' = Some (fst e)" if "e \<in> set (timers ?m')" "fst (snd e) = Reconnect" for e
    using that assms(2) timers_okD(3) [OF assms(1), of e] by (auto simp: tm rt)
qed

lemma timers_ok_stopHeartbeat: "timers_ok m \<Longrightarrow> timers_ok (stopHeartbeat m)"
proof -
  assume ok: "timers_ok m"
  have "timers_ok ((clearTimer h m)\<lparr> heartbeatTimer := None \<rparr>)" for h
    using timers_ok_clearTimer [OF ok, of h] by (simp add: timers_ok_def)
  then show ?thesis using ok by (simp add: stopHeartbeat_def split: option.splits)
qed

lemma timers_ok_startHeartbeat: "timers_ok m \<Longrightarrow> timers_ok (startHeartbeat m)"
proof -
  assume "timers_ok m"
  then have "timers_ok (snd (setTimer Heartbeat 25000 (stopHeartbeat m)))"
    by (intro timers_ok_setTimer timers_ok_stopHeartbeat) simp_all
  then show ?thesis
    by (simp add: startHeartbeat_def Let_def timers_ok_def)
qed

lemma timers_ok_clearReconnectTimer:
  assumes "timers_ok m"
  shows "timers_ok (clearReconnectTimer m)" and "pendingReconnects (clearReconnectTimer m) = []"
proof -
  show "timers_ok (clearReconnectTimer m)"
  proof (cases "truthy_handle (reconnectTimer m)")
    case False
    then have "clearReconnectTimer m = m"
      by (simp add: clearReconnectTimer_def truthy_handle_def split: option.splits)
    then show ?thesis using assms by simp
  next
    case True
    then obtain h where h: "reconnectTimer m = Some h" "h \<noteq> 0"
      by (auto simp: truthy_handle_def split: option.splits)
    then have e: "clearReconnectTimer m = (clearTimer h m)\<lparr> reconnectTimer := None \<rparr>"
      by (simp add: clearReconnectTimer_def)
    show ?thesis
      unfolding e
    proof (rule timers_okI)
      let ?m' = "(clearTimer h m)\<lparr> reconnectTimer := None \<rparr>"
      have tm: "timers ?m' = filter (\<lambda>e. fst e \<noteq> h) (timers m)" and nh: "nextHandle ?m' = nextHandle m"
        by (simp_all add: clearTimer_def)
      show "fst e \<noteq> 0 \<and> fst e \<le> nextHandle ?m'" if "e \<in> set (timers ?m')" for e
        using that timers_okD(1,2) [OF assms, of e] by (simp add: tm nh)
      show "distinct (map fst (timers ?m'))"
        using assms by (simp add: tm timers_ok_def distinct_map_filter)
      show "reconnectTimer ?m' = Some (fst e)" if "e \<in> set (timers ?m')" "fst (snd e) = Reconnect" for e
        using that timers_okD(3) [OF assms, of e] h by (simp add: tm)
    qed
  qed
  show "pendingReconnects (clearReconnectTimer m) = []"
  proof (cases "truthy_handle (reconnectTimer m)")
    case False
    then have "clearReconnectTimer m = m"
      by (simp add: clearReconnectTimer_def truthy_handle_def split: option.splits)
    then show ?thesis using no_pending_if_falsy [OF assms False] by simp
  next
    case True
    then obtain h where h: "reconnectTimer m = Some h" "h \<noteq> 0"
      by (auto simp: truthy_handle_def split: option.splits)
    then have e: "clearReconnectTimer m = (clearTimer h m)\<lparr> reconnectTimer := None \<rparr>"
      by (simp add: clearReconnectTimer_def)
    have "fst (snd x) \<noteq> Reconnect" if "x \<in> set (timers m)" "fst x \<noteq> h" for x
      using that timers_okD(3) [OF assms, of x] h by auto
    then show ?thesis
      by (auto simp: e pendingReconnects_def clearTimer_def filter_empty_conv)
  qed
qed

lemma scheduleReconnect_noop:
  "explicitlyClosed m \<or> \<not> truthy_str (url m) \<or> \<not> truthy_str (sessionId m)
     \<or> truthy_handle (reconnectTimer m) \<Longrightarrow> scheduleReconnect m = m"
  by (auto simp: scheduleReconnect_def)

lemma scheduleReconnect_sched:
  assumes "\<not> explicitlyClosed m" "truthy_str (url m)" "truthy_str (sessionId m)"
    "\<not> truthy_handle (reconnectTimer m)"
  shows "scheduleReconnect m =
    m\<lparr> reconnectAttempts := min (reconnectAttempts m + 1) 10,
       randoms := tl (randoms m),
       timers := timers m @ [(Suc (nextHandle m), Reconnect,
                   reconnectDelay (min (reconnectAttempts m + 1) 10) (fst (Math_random m)))],
       nextHandle := Suc (nextHandle m),
       reconnectTimer := Some (Suc (nextHandle m)) \<rparr>"
  using assms
  by (cases "randoms m") (simp_all add: scheduleReconnect_def Math_random_def setTimer_def Let_def)

lemma timers_ok_scheduleReconnect:
  assumes "timers_ok m"
  shows "timers_ok (scheduleReconnect m)"
proof (cases "explicitlyClosed m \<or> \<not> truthy_str (url m) \<or> \<not> truthy_str (sessionId m)
     \<or> truthy_handle (reconnectTimer m)")
  case True
  then show ?thesis using assms by (simp add: scheduleReconnect_noop)
next
  case False
  then have none: "pendingReconnects m = []"
    using assms by (intro no_pending_if_falsy) simp_all
  then have nr: "\<And>e. e \<in> set (timers m) \<Longrightarrow> fst (snd e) \<noteq> Reconnect"
    by (simp add: pendingReconnects_def filter_empty_conv)
  let ?m' = "m\<lparr> reconnectAttempts := min (reconnectAttempts m + 1) 10,
       randoms := tl (randoms m),
       timers := timers m @ [(Suc (nextHandle m), Reconnect,
                   reconnectDelay (min (reconnectAttempts m + 1) 10) (fst (Math_random m)))],
       nextHandle := Suc (nextHandle m),
       reconnectTimer := Some (Suc (nextHandle m)) \<rparr>"
  from False have s: "scheduleReconnect m = ?m'"
    by (intro scheduleReconnect_sched) simp_all
  have "timers_ok ?m'"
  proof (rule timers_okI)
    show "fst e \<noteq> 0 \<and> fst e \<le> nextHandle ?m'" if "e \<in> set (timers ?m')" for e
      using that timers_okD(1,2) [OF assms, of e] by auto
    have "Suc (nextHandle m) \<notin> fst ` set (timers m)"
    proof
      assume "Suc (nextHandle m) \<in> fst ` set (timers m)"
      then obtain e where e: "e \<in> set (timers m)" "fst e = Suc (nextHandle m)" by auto
      with timers_okD(2) [OF assms e(1)] show False by simp
    qed
    then show "distinct (map fst (timers ?m'))"
      using assms by (simp add: timers_ok_def)
    show "reconnectTimer ?m' = Some (fst e)" if "e \<in> set (timers ?m')" "fst (snd e) = Reconnect" for e
      using that nr [of e] by auto
  qed
  then show ?thesis by (simp add: s)
qed

section \<open>The timer invariant holds in every reachable state\<close>

lemma timers_ok_update [simp]:
  "timers_ok (m\<lparr> ws := a1 \<rparr>) = timers_ok m"
  "timers_ok (m\<lparr> url := a2 \<rparr>) = timers_ok m"
  "timers_ok (m\<lparr> sessionId := a3 \<rparr>) = timers_ok m"
  "timers_ok (m\<lparr> isAssistantMode := a4 \<rparr>) = timers_ok m"
  "timers_ok (m\<lparr> state := a5 \<rparr>) = timers_ok m"
  "timers_ok (m\<lparr> callbacks := a6 \<rparr>) = timers_ok m"
  "timers_ok (m\<lparr> heartbeatTimer := a7 \<rparr>) = timers_ok m"
  "timers_ok (m\<lparr> reconnectAttempts := a8 \<rparr>) = timers_ok m"
  "timers_ok (m\<lparr> explicitlyClosed := a9 \<rparr>) = timers_ok m"
  "timers_ok (m\<lparr> sendQueue := b1 \<rparr>) = timers_ok m"
  "timers_ok (m\<lparr> authorized := b2 \<rparr>) = timers_ok m"
  "timers_ok (m\<lparr> awaitingAuthResolve := b3 \<rparr>) = timers_ok m"
  "timers_ok (m\<lparr> connectedUrl := b4 \<rparr>) = timers_ok m"
  "timers_ok (m\<lparr> connectedSessionId := b5 \<rparr>) = timers_ok m"
  "timers_ok (m\<lparr> sockets := b6 \<rparr>) = timers_ok m"
  "timers_ok (m\<lparr> waiters := b7 \<rparr>) = timers_ok m"
  "timers_ok (m\<lparr> storage := b8 \<rparr>) = timers_ok m"
  "timers_ok (m\<lparr> trace := b9 \<rparr>) = timers_ok m"
  "timers_ok (m\<lparr> stateLog := c1 \<rparr>) = timers_ok m"
  "timers_ok (m\<lparr> sendFails := c2 \<rparr>) = timers_ok m"
  "timers_ok (m\<lparr> closeFails := c3 \<rparr>) = timers_ok m"
  "timers_ok (m\<lparr> randoms := c4 \<rparr>) = timers_ok m"
  by (simp_all add: timers_ok_def)

lemma timers_ok_init: "timers_ok (init st)"
  by (simp add: timers_ok_def init_def)

lemma timers_ok_basic [simp]:
  "timers_ok (setState s m) = timers_ok m"
  "timers_ok (setReadyState i r m) = timers_ok m"
  "timers_ok (snd (ws_send i d m)) = timers_ok m"
  "timers_ok (snd (ws_close i m)) = timers_ok m"
  "timers_ok (snd (new_WebSocket P u m)) = timers_ok m"
  "timers_ok (enqueue p m) = timers_ok m"
  "timers_ok (setCallbacks cbs m) = timers_ok m"
  by (simp_all add: setState_def setReadyState_def ws_send_def ws_close_def
        new_WebSocket_def enqueue_def setCallbacks_def Let_def)

lemma timers_ok_flushQueue [simp]: "timers_ok (flushQueue m) = timers_ok m"
  by (rule timers_ok_cong) simp_all

lemma timers_ok_close: "timers_ok m \<Longrightarrow> timers_ok (close m)"
  by (simp add: close_def Let_def timers_ok_clearReconnectTimer(1) timers_ok_stopHeartbeat
        split: option.splits)

lemma timers_ok_openTransport: "timers_ok m \<Longrightarrow> timers_ok (openTransport P m)"
  by (simp add: openTransport_def Let_def timers_ok_scheduleReconnect split: option.splits)

lemma timers_ok_connect: "timers_ok m \<Longrightarrow> timers_ok (connect P m)"
  by (simp add: connect_def Let_def timers_ok_openTransport timers_ok_close)

lemma timers_ok_updateSessionContext: "timers_ok m \<Longrightarrow> timers_ok (updateSessionContext options m)"
  by (simp add: updateSessionContext_def Let_def timers_ok_close)

lemma timers_ok_send: "timers_ok m \<Longrightarrow> timers_ok (send P data m)"
  by (simp add: send_def Let_def timers_ok_connect)

lemma timers_ok_perform: "timers_ok m \<Longrightarrow> timers_ok (perform P m a)"
  by (cases a)
     (simp_all add: timers_ok_send timers_ok_connect timers_ok_close timers_ok_updateSessionContext)

lemma timers_ok_performs: "timers_ok m \<Longrightarrow> timers_ok (foldl (perform P) m as)"
  by (induction as arbitrary: m) (simp_all add: timers_ok_perform)

lemma timers_ok_invoke: "timers_ok m \<Longrightarrow> timers_ok (snd (invoke P f e m))"
  by (simp add: invoke_def timers_ok_performs split: option.splits)

lemma timers_ok_sendAuthorization [simp]: "timers_ok (sendAuthorization P m) = timers_ok m"
  by (simp add: sendAuthorization_def split: option.splits)

lemma timers_ok_onopen: "timers_ok m \<Longrightarrow> timers_ok (onopen P m)"
  by (simp add: onopen_def onopenCallback_def Let_def timers_ok_invoke timers_ok_startHeartbeat)

lemma timers_ok_resolveWaiter: "timers_ok m \<Longrightarrow> timers_ok (resolveWaiter w v m)"
  by (simp add: resolveWaiter_def timers_ok_clearTimer)

lemma timers_ok_resolvePending: "timers_ok m \<Longrightarrow> timers_ok (resolvePending m)"
  by (simp add: resolvePending_def timers_ok_resolveWaiter split: option.splits)

lemma timers_ok_authorize: "timers_ok m \<Longrightarrow> timers_ok (snd (authorize P m))"
  by (simp add: authorize_def timers_ok_invoke)

lemma timers_ok_forward: "timers_ok m \<Longrightarrow> timers_ok (forward P d m)"
  by (simp add: forward_def timers_ok_invoke)

lemma timers_ok_onmessage: "timers_ok m \<Longrightarrow> timers_ok (onmessage P d m)"
  by (simp add: onmessage_def Let_def timers_ok_resolvePending timers_ok_authorize
        timers_ok_forward split: option.splits)

lemma timers_ok_onclose: "timers_ok m \<Longrightarrow> timers_ok (onclose P m)"
  by (simp add: onclose_def Let_def timers_ok_scheduleReconnect timers_ok_stopHeartbeat
        timers_ok_invoke)

lemma timers_ok_onerror: "timers_ok m \<Longrightarrow> timers_ok (onerror P m)"
  by (simp add: onerror_def timers_ok_invoke)

lemma timers_ok_ensureAuthorized:
  assumes "timers_ok m"
  shows "timers_ok (snd (ensureAuthorized P t m))"
proof -
  have "timers_ok (snd (setTimer (AuthTimeout w) t m'))" if "timers_ok m'" for w m'
    using that by (rule timers_ok_setTimer) simp
  then show ?thesis
    using assms by (simp add: ensureAuthorized_def Let_def timers_ok_connect)
qed

lemma find_timer:
  assumes "find (\<lambda>e. fst e = h) (timers m) = Some e"
  shows "e \<in> set (timers m)" and "fst e = h"
  using assms by (auto simp: find_Some_iff in_set_conv_nth)

lemma timers_ok_fireTimer:
  assumes "timers_ok m"
  shows "timers_ok (fireTimer P h now m)"
proof (cases "find (\<lambda>e. fst e = h) (timers m)")
  case None
  then show ?thesis using assms by (simp add: fireTimer_def)
next
  case (Some e)
  note e = find_timer [OF Some]
  show ?thesis
  proof (cases "fst (snd e)")
    case Heartbeat
    then show ?thesis using assms by (simp add: fireTimer_def Some heartbeatFired_def)
  next
    case (AuthTimeout w)
    then show ?thesis
      using assms by (simp add: fireTimer_def Some authTimeoutFired_def timers_ok_clearTimer)
  next
    case Reconnect
    with timers_okD(3) [OF assms e(1)] e(2) have r: "reconnectTimer m = Some h" by simp
    have "timers_ok ((clearTimer h m)\<lparr> reconnectTimer := None \<rparr>)"
    proof (rule timers_okI)
      let ?m' = "(clearTimer h m)\<lparr> reconnectTimer := None \<rparr>"
      have tm: "timers ?m' = filter (\<lambda>e. fst e \<noteq> h) (timers m)" and nh: "nextHandle ?m' = nextHandle m"
        by (simp_all add: clearTimer_def)
      show "fst x \<noteq> 0 \<and> fst x \<le> nextHandle ?m'" if "x \<in> set (timers ?m')" for x
        using that timers_okD(1,2) [OF assms, of x] by (simp add: tm nh)
      show "distinct (map fst (timers ?m'))"
        using assms by (simp add: tm timers_ok_def distinct_map_filter)
      show "reconnectTimer ?m' = Some (fst x)" if "x \<in> set (timers ?m')" "fst (snd x) = Reconnect" for x
        using that timers_okD(3) [OF assms, of x] r by (simp add: tm)
    qed
    then show ?thesis
      by (simp add: fireTimer_def Some Reconnect reconnectFired_def timers_ok_connect)
  qed
qed

lemma timers_ok_step: "timers_ok m \<Longrightarrow> timers_ok (step P m ev)"
  by (cases ev)
     (simp_all add: timers_ok_onopen timers_ok_onmessage timers_ok_onclose timers_ok_onerror
        timers_ok_fireTimer timers_ok_updateSessionContext timers_ok_connect timers_ok_close
        timers_ok_ensureAuthorized timers_ok_send)

lemma timers_ok_run: "timers_ok m \<Longrightarrow> timers_ok (run P evs m)"
  unfolding run_def by (induction evs arbitrary: m) (simp_all add: timers_ok_step)

section \<open>Double-precision rounding\<close>

lemma rne_cases: "rne y = \<lfloor>y\<rfloor> \<or> rne y = \<lfloor>y\<rfloor> + 1"
  by (simp add: rne_def Let_def)

lemma rne_ge: "of_int n \<le> y \<Longrightarrow> n \<le> rne y"
proof -
  assume "of_int n \<le> y"
  then have "n \<le> \<lfloor>y\<rfloor>" by (simp add: le_floor_iff)
  with rne_cases [of y] show ?thesis by auto
qed

lemma rne_int [simp]: "rne (of_int n) = n"
  by (simp add: rne_def Let_def)

lemma rne_le: "y \<le> of_int n \<Longrightarrow> rne y \<le> n"
proof (cases "y = of_int n")
  case True
  then show ?thesis by simp
next
  case False
  assume "y \<le> of_int n"
  with False have "y < of_int n" by simp
  then have "\<lfloor>y\<rfloor> < n" by (simp add: floor_less_iff)
  with rne_cases [of y] show ?thesis by auto
qed

lemma rne_eqI:
  assumes "\<bar>y - of_int k\<bar> < 1 / 2"
  shows "rne y = k"
proof -
  from assms have lo: "of_int k - 1 / 2 < y" and hi: "y < of_int k + 1 / 2" by linarith+
  have "of_int (k - 1) \<le> y" using lo by simp
  then have f1: "k - 1 \<le> \<lfloor>y\<rfloor>" by (simp only: le_floor_iff)
  have "y < of_int (k + 1)" using hi by simp
  then have f2: "\<lfloor>y\<rfloor> < k + 1" by (simp only: floor_less_iff)
  from f1 f2 consider "\<lfloor>y\<rfloor> = k" | "\<lfloor>y\<rfloor> = k - 1" by linarith
  then show ?thesis
  proof cases
    case 1
    with hi show ?thesis by (simp add: rne_def Let_def)
  next
    case 2
    with lo show ?thesis by (simp add: rne_def Let_def)
  qed
qed

lemma ulp_pos: "0 < ulp x"
  by (simp add: ulp_def)

lemma fl_nonneg: "0 \<le> x \<Longrightarrow> 0 \<le> fl x"
proof -
  assume x: "0 \<le> x"
  have "of_int 0 \<le> x / ulp x" using x ulp_pos [of x] by simp
  then have "0 \<le> rne (x / ulp x)" by (rule rne_ge)
  then show ?thesis using ulp_pos [of x] by (simp add: fl_def)
qed

text \<open>Below \<open>2 ^ 53\<close> the spacing of the doubles is the reciprocal of a power of two.\<close>

lemma ulp_small:
  assumes "0 < x" and "x < 2 ^ 53"
  shows "\<exists>k. ulp x = 1 / 2 ^ k"
proof -
  let ?e = "max \<lfloor>log 2 \<bar>x\<bar>\<rfloor> (- 1022)"
  have "log 2 x < 53"
    using assms by (simp add: log_less_iff powr_realpow [symmetric])
  then have "\<lfloor>log 2 \<bar>x\<bar>\<rfloor> < 53" using assms(1) by (simp add: floor_less_iff)
  then have e: "?e \<le> 52" by simp
  have "ulp x = 2 powr (- real (nat (52 - ?e)))"
    using e by (simp add: ulp_def)
  also have "\<dots> = 1 / 2 ^ nat (52 - ?e)"
    by (simp add: powr_minus powr_realpow divide_inverse)
  finally show ?thesis by blast
qed

lemma fl_le_nat:
  assumes "0 < x" and "x \<le> real n" and "x < 2 ^ 53"
  shows "fl x \<le> real n"
proof -
  from ulp_small [OF assms(1,3)] obtain k where u: "ulp x = 1 / 2 ^ k" by blast
  have "x / ulp x \<le> of_int (int n * 2 ^ k)" using assms(2) by (simp add: u)
  then have "rne (x / ulp x) \<le> int n * 2 ^ k" by (rule rne_le)
  then have "real_of_int (rne (x / ulp x)) \<le> real_of_int (int n * 2 ^ k)" by (simp only: of_int_le_iff)
  then have "real_of_int (rne (x / ulp x)) * (1 / 2 ^ k) \<le> real n"
    by (simp add: field_simps)
  then show ?thesis using assms(1) by (simp add: fl_def u)
qed

lemma fl_ge_nat:
  assumes "0 < x" and "real n \<le> x" and "x < 2 ^ 53"
  shows "real n \<le> fl x"
proof -
  from ulp_small [OF assms(1,3)] obtain k where u: "ulp x = 1 / 2 ^ k" by blast
  have "of_int (int n * 2 ^ k) \<le> x / ulp x" using assms(2) by (simp add: u)
  then have "int n * 2 ^ k \<le> rne (x / ulp x)" by (rule rne_ge)
  then have "real_of_int (int n * 2 ^ k) \<le> real_of_int (rne (x / ulp x))" by (simp only: of_int_le_iff)
  then have "real n \<le> real_of_int (rne (x / ulp x)) * (1 / 2 ^ k)"
    by (simp add: field_simps)
  then show ?thesis using assms(1) by (simp add: fl_def u)
qed

text \<open>The spacing inside one binade.\<close>

lemma ulp_up:
  assumes "2 ^ n \<le> x" and "x < 2 ^ Suc n"
  shows "ulp x = 2 ^ n / 2 ^ 52"
proof -
  have x: "0 < x" using assms(1) by (rule less_le_trans [rotated]) simp
  have "real n \<le> log 2 x" using assms(1) x by (simp add: le_log_iff powr_realpow)
  moreover have "log 2 x < real n + 1"
    using assms(2) x by (simp add: log_less_iff powr_realpow [symmetric] powr_add)
  ultimately have "\<lfloor>log 2 x\<rfloor> = int n" by (simp add: floor_eq_iff)
  then have "ulp x = 2 powr (real n - 52)" using x by (simp add: ulp_def)
  also have "\<dots> = 2 ^ n / 2 ^ 52"
    by (simp add: powr_diff powr_realpow)
  finally show ?thesis .
qed

lemma powr_neg_nat: "2 powr (- real k) = 1 / (2::real) ^ k"
  by (simp add: powr_minus powr_realpow divide_inverse)

lemma ulp_down:
  assumes "1 / 2 ^ Suc n \<le> x" and "x < 1 / 2 ^ n" and "n \<le> 1021"
  shows "ulp x = 1 / 2 ^ (53 + n)"
proof -
  have x: "0 < x" using assms(1) by (rule less_le_trans [rotated]) simp
  have "2 powr (- real (Suc n)) \<le> x"
    using assms(1) by (simp only: powr_neg_nat)
  then have "- real (Suc n) \<le> log 2 x" using x by (simp only: le_log_iff)
  moreover have "x < 2 powr (- real n)"
    using assms(2) by (simp only: powr_neg_nat)
  then have "log 2 x < - real n"
    using x by (simp add: log_less_iff)
  ultimately have "\<lfloor>log 2 x\<rfloor> = - int (Suc n)" by (simp add: floor_eq_iff)
  then have "ulp x = 2 powr (- real (53 + n))" using x assms(3) by (simp add: ulp_def)
  also have "\<dots> = 1 / 2 ^ (53 + n)"
    by (simp only: powr_neg_nat)
  finally show ?thesis .
qed

text \<open>The largest double below 1 is \<open>1 - 1 / 2 ^ 53\<close>.\<close>

lemma double_below_one:
  assumes "isDouble r" and "0 \<le> r" and "r < 1"
  shows "r \<le> 1 - 1 / 2 ^ 53"
proof (cases "r < 1 / 2")
  case True
  then show ?thesis by simp
next
  case False
  then have "1 / 2 ^ Suc 0 \<le> r" "r < 1 / 2 ^ 0" using assms(3) by simp_all
  then have u: "ulp r = 1 / 2 ^ 53" using ulp_down [of 0 r] by simp
  from False have r0: "r \<noteq> 0" by simp
  let ?k = "rne (r / ulp r)"
  from assms(1) r0 have eq: "r = of_int ?k / 2 ^ 53"
    by (simp add: isDouble_def fl_def u)
  with assms(3) have "real_of_int ?k < 2 ^ 53" by (simp add: field_simps)
  then have "real_of_int ?k < real_of_int (2 ^ 53)" by simp
  then have "?k < 2 ^ 53" by (simp only: of_int_less_iff)
  then have "?k \<le> 2 ^ 53 - 1" by simp
  then have "real_of_int ?k \<le> real_of_int (2 ^ 53 - 1)" by (simp only: of_int_le_iff)
  then have "real_of_int ?k / 2 ^ 53 \<le> (2 ^ 53 - 1) / 2 ^ 53"
    by (simp add: divide_right_mono)
  with eq show ?thesis by (simp add: field_simps)
qed

text \<open>
  The jitter \<^verbatim>\<open>Math.random() * 300\<close> stays below 300: the product is at most
  \<open>300 - 300 / 2 ^ 53\<close>, which is nearer to the double \<open>300 - 1 / 2 ^ 44\<close> than to 300.
\<close>

lemma jitter_bounds:
  assumes "isDouble r" and "0 \<le> r" and "r < 1"
  shows "0 \<le> fl (r * 300)" and "fl (r * 300) \<le> 300 - 1 / 2 ^ 44"
proof -
  show "0 \<le> fl (r * 300)" using assms(2) by (intro fl_nonneg) simp
  from double_below_one [OF assms] have top: "r * 300 \<le> 300 - 300 / 2 ^ 53" by simp
  show "fl (r * 300) \<le> 300 - 1 / 2 ^ 44"
  proof (cases "r * 300 < 256")
    case small: True
    show ?thesis
    proof (cases "r = 0")
      case True
      then show ?thesis by (simp add: fl_def)
    next
      case False
      with assms(2) have "0 < r * 300" by simp
      from fl_le_nat [OF this, of 256] small have "fl (r * 300) \<le> 256" by simp
      then show ?thesis by simp
    qed
  next
    case False
    then have lo: "2 ^ 8 \<le> r * 300" by simp
    have hi: "r * 300 < 2 ^ Suc 8" using assms(3) by simp
    have u: "ulp (r * 300) = 1 / 2 ^ 44" using ulp_up [OF lo hi] by simp
    have nz: "r * 300 \<noteq> 0" using lo by simp
    define N :: int where "N = 300 * 2 ^ 44"
    define y where "y = r * 300 * 2 ^ 44"
    have y: "y \<le> of_int N - 300 / 2 ^ 9" using top by (simp add: y_def N_def)
    have "rne y \<le> N - 1"
    proof -
      have "y < of_int N" using y by simp
      then have f: "\<lfloor>y\<rfloor> < N" by (simp only: floor_less_iff)
      show ?thesis
      proof (cases "\<lfloor>y\<rfloor> = N - 1")
        case True
        then have "y - of_int \<lfloor>y\<rfloor> \<le> 1 - 300 / 2 ^ 9" using y by simp
        then have "y - of_int \<lfloor>y\<rfloor> < 1 / 2" by simp
        then show ?thesis using True by (simp add: rne_def Let_def)
      next
        case False
        with f have "\<lfloor>y\<rfloor> + 1 \<le> N - 1" by linarith
        with rne_cases [of y] show ?thesis by linarith
      qed
    qed
    then have "real_of_int (rne y) \<le> real_of_int (N - 1)" by (simp only: of_int_le_iff)
    then have "real_of_int (rne y) / 2 ^ 44 \<le> (real_of_int N - 1) / 2 ^ 44"
      by (simp add: divide_right_mono)
    also have "(real_of_int N - 1) / 2 ^ 44 = 300 - 1 / 2 ^ 44"
      by (simp add: N_def field_simps)
    finally have "real_of_int (rne y) / 2 ^ 44 \<le> 300 - 1 / 2 ^ 44" .
    moreover have "fl (r * 300) = real_of_int (rne y) / 2 ^ 44"
      using nz by (simp add: fl_def u y_def)
    ultimately show ?thesis by simp
  qed
qed

text \<open>Adding the jitter to the integer \<open>b\<close> moves the delay by at most 300.\<close>

lemma delay_bounds:
  assumes "0 < b" and "b \<le> 15000" and "0 \<le> j" and "j \<le> 300"
  shows "real b \<le> fl (real b + j)" and "fl (real b + j) \<le> real b + 300"
proof -
  have pos: "0 < real b + j" using assms by simp
  have small: "real b + j < 2 ^ 53" using assms by simp
  show "real b \<le> fl (real b + j)"
    by (rule fl_ge_nat [OF pos _ small]) (use assms in simp)
  have "fl (real b + j) \<le> real (b + 300)"
    by (rule fl_le_nat [OF pos _ small]) (use assms in simp)
  then show "fl (real b + j) \<le> real b + 300" by simp
qed

text \<open>Evaluation of \<open>fl\<close> at a given number.\<close>

lemma fl_up:
  assumes "2 ^ n \<le> x" and "x < 2 ^ Suc n" and "\<bar>x * 2 ^ 52 / 2 ^ n - of_int k\<bar> < 1 / 2"
  shows "fl x = of_int k * 2 ^ n / 2 ^ 52"
proof -
  have x: "x \<noteq> 0" using assms(1) by (smt (verit) zero_less_power)
  have "rne (x / ulp x) = k"
    by (rule rne_eqI) (use assms(3) in \<open>simp add: ulp_up [OF assms(1,2)]\<close>)
  then show ?thesis using x by (simp add: fl_def ulp_up [OF assms(1,2)])
qed

lemma fl_down:
  assumes "1 / 2 ^ Suc n \<le> x" and "x < 1 / 2 ^ n" and "n \<le> 1021"
    and "\<bar>x * 2 ^ (53 + n) - of_int k\<bar> < 1 / 2"
  shows "fl x = of_int k / 2 ^ (53 + n)"
proof -
  have x: "x \<noteq> 0" using assms(1) by (smt (verit) zero_less_power divide_pos_pos zero_less_one)
  have "rne (x / ulp x) = k"
    by (rule rne_eqI) (use assms(4) in \<open>simp add: ulp_down [OF assms(1-3)]\<close>)
  then show ?thesis using x by (simp add: fl_def ulp_down [OF assms(1-3)])
qed

lemma fl_half: "fl (1 / 2) = 1 / 2" "isDouble (1 / 2)"
proof -
  show "fl (1 / 2) = 1 / 2"
    using fl_down [of 0 "1 / 2" "2 ^ 52"] by simp
  then show "isDouble (1 / 2)" by (simp add: isDouble_def)
qed

lemma fl_150: "fl 150 = 150"
  using fl_up [of 7 150 "150 * 2 ^ 45"] by simp

lemma fl_1150: "fl 1150 = 1150"
  using fl_up [of 10 1150 "1150 * 2 ^ 42"] by simp

lemma fl_15150: "fl 15150 = 15150"
  using fl_up [of 13 15150 "15150 * 2 ^ 39"] by simp

text \<open>The largest result of \<^verbatim>\<open>Math.random()\<close> and the delays it gives.\<close>


lemma fl_top:
  "isDouble maxRandom"
  "fl (maxRandom * 300) = maxJitter"
  "fl (15000 + maxJitter) = 15300"
  "fl (1000 + maxJitter) = 1300"
  "0 \<le> maxRandom" "maxRandom < 1" "maxJitter < 300"
  unfolding maxRandom_def maxJitter_def
proof -
  have "fl (1 - 1 / 2 ^ 53) = 1 - 1 / 2 ^ 53"
    using fl_down [of 0 "1 - 1 / 2 ^ 53" "2 ^ 53 - 1"] by simp
  then show "isDouble (1 - 1 / 2 ^ 53)" by (simp add: isDouble_def)
  show "fl ((1 - 1 / 2 ^ 53) * 300) = 300 - 1 / 2 ^ 44"
    using fl_up [of 8 "(1 - 1 / 2 ^ 53) * 300" "300 * 2 ^ 44 - 1"] by simp
  show "fl (15000 + (300 - 1 / 2 ^ 44)) = 15300"
    using fl_up [of 13 "15000 + (300 - 1 / 2 ^ 44)" "15300 * 2 ^ 39"] by simp
  show "fl (1000 + (300 - 1 / 2 ^ 44)) = 1300"
    using fl_up [of 10 "1000 + (300 - 1 / 2 ^ 44)" "1300 * 2 ^ 42"] by simp
qed simp_all


section \<open>Reconnection backoff (C7)\<close>

lemmas model_defs =
  run_def init_def demoPlatform_def demoContext_def demoCredentials_def demoAuthFrame_def
  updateSessionContext_def connect_def openTransport_def close_def
  onopen_def onopenCallback_def onclose_def onerror_def onmessage_def authorize_def forward_def
  sendAuthorization_def storedToken_def authFrame_def wsText_def optChain_def
  startHeartbeat_def stopHeartbeat_def clearReconnectTimer_def scheduleReconnect_def
  Math_random_def setTimer_def clearTimer_def
  readyStateOf_def setReadyState_def wsOpen_def nextSendFails_def
  ws_send_def ws_close_def new_WebSocket_def invoke_def setState_def
  truthy_str_def truthy_handle_def Let_def

lemma backoff_first: "min (1000 * 2 ^ (min (0 + 1) 10 - 1)) (15000::nat) = 1000"
  by simp

lemma backoff_capped:
  assumes "4 \<le> n"
  shows "min (1000 * 2 ^ (min (n + 1) 10 - 1)) (15000::nat) = 15000"
proof -
  from assms have "4 \<le> min (n + 1) 10 - 1" by simp
  then have "(2::nat) ^ 4 \<le> 2 ^ (min (n + 1) 10 - 1)"
    by (intro power_increasing) simp_all
  then have "(16::nat) \<le> 2 ^ (min (n + 1) 10 - 1)" by simp
  then have "(15000::nat) \<le> 1000 * 2 ^ (min (n + 1) 10 - 1)" by simp
  then show ?thesis by (simp add: min_def)
qed

lemma reconnectDelay_eq:
  "reconnectDelay attempt r = fl (real (min (1000 * 2 ^ (attempt - 1)) 15000) + fl (r * 300))"
  by (simp add: reconnectDelay_def Let_def)

text \<open>
  Claim C7. A request is declined after an explicit close, without an endpoint URL or a
  session identifier, and while a reconnect timer is registered. Otherwise one timeout is
  set; its delay is the double sum of \<open>min (1000 * 2 ^ (attempt - 1)) 15000\<close> and the
  jitter, the double product of \<^verbatim>\<open>Math.random()\<close> and 300, for
  \<open>attempt = min (reconnectAttempts + 1) 10\<close>, which becomes the new attempt counter.
  The jitter lies in \<open>[0, 300)\<close>; the delay is at least the backoff term and exceeds it by
  at most 300, so it is 1000 to 1300 for the first retry, 15000 to 15300 from the fifth
  on, and never more than 15300. In a state that satisfies \<open>timers_ok\<close> at most one
  reconnect timer is pending afterwards. The hypotheses say that \<^verbatim>\<open>Math.random()\<close>
  returns a double in \<open>[0, 1)\<close>.
\<close>

theorem scheduleReconnect_backoff:
  assumes "isDouble (fst (Math_random m))"
    and "0 \<le> fst (Math_random m)" and "fst (Math_random m) < 1"
  shows "(explicitlyClosed m \<or> \<not> truthy_str (url m) \<or> \<not> truthy_str (sessionId m)
            \<or> truthy_handle (reconnectTimer m) \<longrightarrow> scheduleReconnect m = m)
    \<and> (\<not> explicitlyClosed m \<and> truthy_str (url m) \<and> truthy_str (sessionId m)
          \<and> \<not> truthy_handle (reconnectTimer m) \<longrightarrow>
        timers (scheduleReconnect m)
          = timers m @ [(Suc (nextHandle m), Reconnect,
                         fl (real (min (1000 * 2 ^ (min (reconnectAttempts m + 1) 10 - 1)) 15000)
                               + fl (fst (Math_random m) * 300)))]
        \<and> reconnectTimer (scheduleReconnect m) = Some (Suc (nextHandle m))
        \<and> reconnectAttempts (scheduleReconnect m) = min (reconnectAttempts m + 1) 10
        \<and> 0 \<le> fl (fst (Math_random m) * 300) \<and> fl (fst (Math_random m) * 300) < 300
        \<and> real (min (1000 * 2 ^ (min (reconnectAttempts m + 1) 10 - 1)) 15000)
             \<le> fl (real (min (1000 * 2 ^ (min (reconnectAttempts m + 1) 10 - 1)) 15000)
                     + fl (fst (Math_random m) * 300))
        \<and> fl (real (min (1000 * 2 ^ (min (reconnectAttempts m + 1) 10 - 1)) 15000)
                + fl (fst (Math_random m) * 300))
             \<le> real (min (1000 * 2 ^ (min (reconnectAttempts m + 1) 10 - 1)) 15000) + 300
        \<and> fl (real (min (1000 * 2 ^ (min (reconnectAttempts m + 1) 10 - 1)) 15000)
                + fl (fst (Math_random m) * 300)) \<le> 15300
        \<and> (reconnectAttempts m = 0 \<longrightarrow>
              min (1000 * 2 ^ (min (reconnectAttempts m + 1) 10 - 1)) (15000::nat) = 1000)
        \<and> (4 \<le> reconnectAttempts m \<longrightarrow>
              min (1000 * 2 ^ (min (reconnectAttempts m + 1) 10 - 1)) (15000::nat) = 15000))
    \<and> (timers_ok m \<longrightarrow> length (pendingReconnects (scheduleReconnect m)) \<le> 1)"
proof -
  let ?a = "min (reconnectAttempts m + 1) 10"
  let ?b = "min (1000 * 2 ^ (?a - 1)) (15000::nat)"
  let ?j = "fl (fst (Math_random m) * 300)"
  note jb = jitter_bounds [OF assms]
  have j: "0 \<le> ?j" "?j < 300" using jb by simp_all
  have b: "0 < ?b" "?b \<le> 15000" by (simp_all add: min_def)
  have j300: "?j \<le> 300" using j(2) by simp
  note d = delay_bounds [OF b j(1) j300]
  have cap: "fl (real ?b + ?j) \<le> 15300"
    using d(2) b(2) by linarith
  have sched: "timers (scheduleReconnect m)
          = timers m @ [(Suc (nextHandle m), Reconnect, fl (real ?b + ?j))]
        \<and> reconnectTimer (scheduleReconnect m) = Some (Suc (nextHandle m))
        \<and> reconnectAttempts (scheduleReconnect m) = ?a"
    if "\<not> explicitlyClosed m" "truthy_str (url m)" "truthy_str (sessionId m)"
       "\<not> truthy_handle (reconnectTimer m)"
    by (simp add: scheduleReconnect_sched [OF that] reconnectDelay_eq)
  have one: "length (pendingReconnects (scheduleReconnect m)) \<le> 1" if "timers_ok m"
    by (rule pendingReconnects_le_1 [OF timers_ok_scheduleReconnect [OF that]])
  have first: "?b = 1000" if "reconnectAttempts m = 0"
    using that backoff_first by simp
  note capped = backoff_capped [of "reconnectAttempts m"]
  note noop = scheduleReconnect_noop [of m]
  show ?thesis
    using noop sched j d cap first capped one by blast
qed

text \<open>
  The theorem at the first retry of the connecting manager, with \<^verbatim>\<open>Math.random()\<close>
  returning 0.5: one timer of 1150 ms, and a second request changes nothing. With the
  largest double below 1 and the attempt counter at its clamp, the jitter rounds to
  \<open>maxJitter\<close> and the sum to 15300: the bound is attained.
\<close>

theorem scheduleReconnect_backoff_witness:
  "isDouble (fst (Math_random ((connecting None)\<lparr> randoms := [1/2] \<rparr>)))
   \<and> 0 \<le> fst (Math_random ((connecting None)\<lparr> randoms := [1/2] \<rparr>))
   \<and> fst (Math_random ((connecting None)\<lparr> randoms := [1/2] \<rparr>)) < 1
   \<and> \<not> explicitlyClosed ((connecting None)\<lparr> randoms := [1/2] \<rparr>)
   \<and> reconnectAttempts ((connecting None)\<lparr> randoms := [1/2] \<rparr>) = 0
   \<and> timers_ok ((connecting None)\<lparr> randoms := [1/2] \<rparr>)
   \<and> timers (scheduleReconnect ((connecting None)\<lparr> randoms := [1/2] \<rparr>)) = [(1, Reconnect, 1150)]
   \<and> reconnectAttempts (scheduleReconnect ((connecting None)\<lparr> randoms := [1/2] \<rparr>)) = 1
   \<and> length (pendingReconnects (scheduleReconnect ((connecting None)\<lparr> randoms := [1/2] \<rparr>))) \<le> 1
   \<and> scheduleReconnect (scheduleReconnect ((connecting None)\<lparr> randoms := [1/2] \<rparr>))
       = scheduleReconnect ((connecting None)\<lparr> randoms := [1/2] \<rparr>)
   \<and> isDouble (fst (Math_random ((connecting None)\<lparr> randoms := [maxRandom], reconnectAttempts := 10 \<rparr>)))
   \<and> fst (Math_random ((connecting None)\<lparr> randoms := [maxRandom], reconnectAttempts := 10 \<rparr>)) < 1
   \<and> timers (scheduleReconnect ((connecting None)\<lparr> randoms := [maxRandom], reconnectAttempts := 10 \<rparr>))
       = [(1, Reconnect, 15300)]
   \<and> reconnectAttempts (scheduleReconnect ((connecting None)\<lparr> randoms := [maxRandom], reconnectAttempts := 10 \<rparr>))
       = 10
   \<and> scheduleReconnect (init None) = init None"
proof -
  let ?m = "(connecting None)\<lparr> randoms := [1/2] \<rparr>"
  let ?m' = "scheduleReconnect ?m"
  let ?k = "(connecting None)\<lparr> randoms := [maxRandom], reconnectAttempts := 10 \<rparr>"
  have r: "fst (Math_random ?m) = 1/2" "fst (Math_random ?k) = maxRandom"
    by (simp_all add: Math_random_def)
  have h: "isDouble (fst (Math_random ?m))" "0 \<le> fst (Math_random ?m)" "fst (Math_random ?m) < 1"
    by (simp_all add: r fl_half)
  have hk: "isDouble (fst (Math_random ?k))" "0 \<le> fst (Math_random ?k)" "fst (Math_random ?k) < 1"
    by (simp_all only: r fl_top)
  have pre: "\<not> explicitlyClosed ?m" "truthy_str (url ?m)" "truthy_str (sessionId ?m)"
    "\<not> truthy_handle (reconnectTimer ?m)" "reconnectAttempts ?m = 0" "timers ?m = []"
    "nextHandle ?m = 0"
    by (simp_all add: connecting_def model_defs)
  have prek: "\<not> explicitlyClosed ?k" "truthy_str (url ?k)" "truthy_str (sessionId ?k)"
    "\<not> truthy_handle (reconnectTimer ?k)" "reconnectAttempts ?k = 10" "timers ?k = []"
    "nextHandle ?k = 0"
    by (simp_all add: connecting_def model_defs)
  have ok: "timers_ok ?m"
    unfolding connecting_def using timers_ok_run [OF timers_ok_init] by simp
  note t = scheduleReconnect_backoff [OF h]
  from t pre(1-4)
  have "timers ?m' = timers ?m @ [(Suc (nextHandle ?m), Reconnect,
                         fl (real (min (1000 * 2 ^ (min (reconnectAttempts ?m + 1) 10 - 1)) 15000)
                               + fl (fst (Math_random ?m) * 300)))]"
    and "reconnectTimer ?m' = Some (Suc (nextHandle ?m))"
    and "reconnectAttempts ?m' = min (reconnectAttempts ?m + 1) 10"
    by blast+
  then have post: "timers ?m' = [(1, Reconnect, 1150)]" "reconnectTimer ?m' = Some 1"
    "reconnectAttempts ?m' = 1"
    by (simp_all add: pre r fl_150 fl_1150)
  from t ok have one: "length (pendingReconnects ?m') \<le> 1" by blast
  have h': "isDouble (fst (Math_random ?m'))" "0 \<le> fst (Math_random ?m')" "fst (Math_random ?m') < 1"
    by (simp_all add: scheduleReconnect_sched [OF pre(1-4)] Math_random_def isDouble_def fl_def)
  have "truthy_handle (reconnectTimer ?m')" by (simp add: post truthy_handle_def)
  with scheduleReconnect_backoff [OF h'] have again: "scheduleReconnect ?m' = ?m'" by blast
  from scheduleReconnect_backoff [OF hk] prek(1-4)
  have "timers (scheduleReconnect ?k) = timers ?k @ [(Suc (nextHandle ?k), Reconnect,
                         fl (real (min (1000 * 2 ^ (min (reconnectAttempts ?k + 1) 10 - 1)) 15000)
                               + fl (fst (Math_random ?k) * 300)))]"
    and "reconnectAttempts (scheduleReconnect ?k) = min (reconnectAttempts ?k + 1) 10"
    by blast+
  then have capped: "timers (scheduleReconnect ?k) = [(1, Reconnect, 15300)]"
    "reconnectAttempts (scheduleReconnect ?k) = 10"
    by (simp_all add: prek r fl_top)
  have i0: "isDouble (fst (Math_random (init None)))"
    "0 \<le> fst (Math_random (init None))" "fst (Math_random (init None)) < 1"
    "\<not> truthy_str (url (init None))"
    by (simp_all add: Math_random_def init_def truthy_str_def isDouble_def fl_def)
  from scheduleReconnect_backoff [OF i0(1-3)] i0(4)
  have nourl: "scheduleReconnect (init None) = init None" by blast
  show ?thesis
    using h pre(1,5) ok post(1,3) one again hk(1,3) capped nourl by simp
qed

section \<open>The scenarios, evaluated\<close>

lemmas scenario_defs =
  model_defs demoAuthSuccess_def demoHistory_def allCallbacks_def logging_def
  loginCallbacks_def fetchHistory_def demoFetchHistory_def
  ensureAuthorized_def send_def enqueue_def MAX_QUEUE_def flushQueue_def
  resolvePending_def resolveWaiter_def authTimeoutFired_def reconnectFired_def
  heartbeatFired_def fireTimer_def setCallbacks_def businessTypes_def
  flushLoop_Nil flushLoop_Cons flushLoop_None

lemma awaitingAuth_eval:
  "\<not> authorized awaitingAuth"
  "onAuthSuccess (callbacks awaitingAuth) = Some logging"
  "awaitingAuthResolve awaitingAuth = Some 0"
  "length (waiters awaitingAuth) = 1"
  "\<not> settled (waiters awaitingAuth ! 0)"
  "timer (waiters awaitingAuth ! 0) = 2"
  "map fst (timers awaitingAuth) = [1, 2]"
  "sendQueue awaitingAuth = [Some ''hi'']"
  "map sent (sockets awaitingAuth) = [[demoAuthFrame]]"
  "trace awaitingAuth = [CbOpen]"
  "state awaitingAuth = Open"
  "ws awaitingAuth = Some 0"
  "onMessage (callbacks awaitingAuth) = Some logging"
  "wsOpen awaitingAuth"
  "\<not> nextSendFails awaitingAuth"
  by (simp_all add: awaitingAuth_def scenario_defs)

lemma demo_auth_success:
  "JSON_parse demoPlatform demoAuthSuccess = Some (JObj [(''type'', JStr ''auth_success'')])"
  "truthy (JObj [(''type'', JStr ''auth_success'')])"
  "getProp (JObj [(''type'', JStr ''auth_success'')]) ''type'' = JStr ''auth_success''"
  by (simp_all add: demoPlatform_def demoAuthSuccess_def)

lemma demo_history:
  "JSON_parse demoPlatform demoHistory
     = Some (JObj [(''type'', JStr ''history''), (''messages'', JArr [])])"
  "truthy (JObj [(''type'', JStr ''history''), (''messages'', JArr [])])"
  "getProp (JObj [(''type'', JStr ''history''), (''messages'', JArr [])]) ''type'' \<in> set businessTypes"
  by (simp_all add: demoPlatform_def demoHistory_def businessTypes_def)

section \<open>Explicit close: what \<^verbatim>\<open>close()\<close> leaves behind\<close>

lemma stopHeartbeat_fields [simp]:
  "ws (stopHeartbeat m) = ws m"
  "url (stopHeartbeat m) = url m"
  "sessionId (stopHeartbeat m) = sessionId m"
  "isAssistantMode (stopHeartbeat m) = isAssistantMode m"
  "state (stopHeartbeat m) = state m"
  "stateLog (stopHeartbeat m) = stateLog m"
  "reconnectTimer (stopHeartbeat m) = reconnectTimer m"
  "reconnectAttempts (stopHeartbeat m) = reconnectAttempts m"
  "explicitlyClosed (stopHeartbeat m) = explicitlyClosed m"
  "sendQueue (stopHeartbeat m) = sendQueue m"
  "authorized (stopHeartbeat m) = authorized m"
  "connectedUrl (stopHeartbeat m) = connectedUrl m"
  "connectedSessionId (stopHeartbeat m) = connectedSessionId m"
  "sockets (stopHeartbeat m) = sockets m"
  "nextHandle (stopHeartbeat m) = nextHandle m"
  "sendFails (stopHeartbeat m) = sendFails m"
  "closeFails (stopHeartbeat m) = closeFails m"
  "randoms (stopHeartbeat m) = randoms m"
  by (simp_all add: stopHeartbeat_def clearTimer_def split: option.splits)

lemma stopHeartbeat_timers:
  "timers (stopHeartbeat m)
     = (if truthy_handle (heartbeatTimer m)
        then filter (\<lambda>e. fst e \<noteq> the (heartbeatTimer m)) (timers m) else timers m)"
  "heartbeatTimer (stopHeartbeat m)
     = (if truthy_handle (heartbeatTimer m) then None else heartbeatTimer m)"
  by (simp_all add: stopHeartbeat_def clearTimer_def truthy_handle_def split: option.splits)

lemma clearReconnectTimer_fields [simp]:
  "ws (clearReconnectTimer m) = ws m"
  "url (clearReconnectTimer m) = url m"
  "sessionId (clearReconnectTimer m) = sessionId m"
  "isAssistantMode (clearReconnectTimer m) = isAssistantMode m"
  "state (clearReconnectTimer m) = state m"
  "stateLog (clearReconnectTimer m) = stateLog m"
  "heartbeatTimer (clearReconnectTimer m) = heartbeatTimer m"
  "reconnectAttempts (clearReconnectTimer m) = reconnectAttempts m"
  "explicitlyClosed (clearReconnectTimer m) = explicitlyClosed m"
  "sendQueue (clearReconnectTimer m) = sendQueue m"
  "authorized (clearReconnectTimer m) = authorized m"
  "connectedUrl (clearReconnectTimer m) = connectedUrl m"
  "connectedSessionId (clearReconnectTimer m) = connectedSessionId m"
  "sockets (clearReconnectTimer m) = sockets m"
  "nextHandle (clearReconnectTimer m) = nextHandle m"
  "sendFails (clearReconnectTimer m) = sendFails m"
  "closeFails (clearReconnectTimer m) = closeFails m"
  "randoms (clearReconnectTimer m) = randoms m"
  by (simp_all add: clearReconnectTimer_def clearTimer_def split: option.splits)

lemma ws_close_fields [simp]:
  "ws (snd (ws_close i m)) = ws m"
  "url (snd (ws_close i m)) = url m"
  "sessionId (snd (ws_close i m)) = sessionId m"
  "isAssistantMode (snd (ws_close i m)) = isAssistantMode m"
  "state (snd (ws_close i m)) = state m"
  "stateLog (snd (ws_close i m)) = stateLog m"
  "heartbeatTimer (snd (ws_close i m)) = heartbeatTimer m"
  "reconnectTimer (snd (ws_close i m)) = reconnectTimer m"
  "reconnectAttempts (snd (ws_close i m)) = reconnectAttempts m"
  "explicitlyClosed (snd (ws_close i m)) = explicitlyClosed m"
  "sendQueue (snd (ws_close i m)) = sendQueue m"
  "authorized (snd (ws_close i m)) = authorized m"
  "connectedUrl (snd (ws_close i m)) = connectedUrl m"
  "connectedSessionId (snd (ws_close i m)) = connectedSessionId m"
  "timers (snd (ws_close i m)) = timers m"
  "nextHandle (snd (ws_close i m)) = nextHandle m"
  "sendFails (snd (ws_close i m)) = sendFails m"
  "randoms (snd (ws_close i m)) = randoms m"
  "length (sockets (snd (ws_close i m))) = length (sockets m)"
  "map sent (sockets (snd (ws_close i m))) = map sent (sockets m)"
  "map sock_url (sockets (snd (ws_close i m))) = map sock_url (sockets m)"
  by (simp_all add: ws_close_def setReadyState_def Let_def map_update list_update_same_conv)

lemma close_fields:
  "explicitlyClosed (close m)"
  "state (close m) = Closed"
  "ws (close m) = None"
  "sendQueue (close m) = []"
  "\<not> authorized (close m)"
  "url (close m) = url m"
  "sessionId (close m) = sessionId m"
  "isAssistantMode (close m) = isAssistantMode m"
  "callbacks (close m) = callbacks m"
  "connectedUrl (close m) = connectedUrl m"
  "connectedSessionId (close m) = connectedSessionId m"
  "reconnectAttempts (close m) = reconnectAttempts m"
  "nextHandle (close m) = nextHandle m"
  "waiters (close m) = waiters m"
  "awaitingAuthResolve (close m) = awaitingAuthResolve m"
  "storage (close m) = storage m"
  "trace (close m) = trace m"
  "sendFails (close m) = sendFails m"
  "randoms (close m) = randoms m"
  "length (sockets (close m)) = length (sockets m)"
  "map sent (sockets (close m)) = map sent (sockets m)"
  "stateLog (close m) = stateLog m @ (if ws m = None then [Closed] else [Closing, Closed])"
  by (simp_all add: close_def Let_def setState_def split: option.splits)

section \<open>Reusing the transport (C6)\<close>

lemma openTransport_ok:
  assumes "\<not> WebSocket_throws P (the (url m))"
  shows "openTransport P m =
     m\<lparr> sockets := sockets m @ [\<lparr> sock_url = the (url m), readyState = CONNECTING, sent = [] \<rparr>],
        ws := Some (length (sockets m)), connectedUrl := Some (the (url m)),
        connectedSessionId := Some (the (sessionId m)) \<rparr>"
  using assms by (simp add: openTransport_def new_WebSocket_def Let_def)

lemma connect_noop:
  "\<not> truthy_str (url m) \<or> \<not> truthy_str (sessionId m) \<Longrightarrow> connect P m = m"
  "ws m \<noteq> None \<and> state m = Open \<and> wsOpen m \<and> connectedUrl m = url m
     \<and> connectedSessionId m = sessionId m \<Longrightarrow> connect P m = m"
  "state m = Connecting \<Longrightarrow> connect P m = m"
  by (auto simp: connect_def Let_def)

lemma connect_opens:
  assumes "truthy_str (url m)" and "truthy_str (sessionId m)"
    and "\<not> (ws m \<noteq> None \<and> state m = Open \<and> wsOpen m \<and> connectedUrl m = url m
             \<and> connectedSessionId m = sessionId m)"
    and "state m \<noteq> Connecting"
    and "\<not> WebSocket_throws P (the (url m))"
  shows "state (connect P m) = Connecting"
    and "length (sockets (connect P m)) = Suc (length (sockets m))"
    and "ws (connect P m) = Some (length (sockets m))"
    and "connectedUrl (connect P m) = url m"
    and "connectedSessionId (connect P m) = sessionId m"
    and "\<not> authorized (connect P m)"
    and "\<not> explicitlyClosed (connect P m)"
proof -
  let ?m1 = "if ws m \<noteq> None \<and> state m = Open \<and> wsOpen m then close m else m"
  let ?m2 = "setState Connecting (?m1\<lparr> explicitlyClosed := False, authorized := False \<rparr>)"
  have s1: "state ?m1 \<noteq> Connecting" using assms(4) by (simp add: close_fields)
  have c: "connect P m = openTransport P ?m2"
    using assms(1-3) s1 by (auto simp: connect_def Let_def)
  have u: "url ?m2 = url m" "sessionId ?m2 = sessionId m" "length (sockets ?m2) = length (sockets m)"
    by (simp_all add: setState_def close_fields)
  from assms(5) u have nt: "\<not> WebSocket_throws P (the (url ?m2))" by simp
  have some: "Some (the (url m)) = url m" "Some (the (sessionId m)) = sessionId m"
    using assms(1,2) by (auto simp: truthy_str_def split: option.splits)
  show "state (connect P m) = Connecting"
    unfolding c openTransport_ok [OF nt] by (simp add: setState_def)
  show "length (sockets (connect P m)) = Suc (length (sockets m))"
    unfolding c openTransport_ok [OF nt] using u by simp
  show "ws (connect P m) = Some (length (sockets m))"
    unfolding c openTransport_ok [OF nt] using u by simp
  show "connectedUrl (connect P m) = url m"
    unfolding c openTransport_ok [OF nt] using u some by simp
  show "connectedSessionId (connect P m) = sessionId m"
    unfolding c openTransport_ok [OF nt] using u some by simp
  show "\<not> authorized (connect P m)"
    unfolding c openTransport_ok [OF nt] by (simp add: setState_def)
  show "\<not> explicitlyClosed (connect P m)"
    unfolding c openTransport_ok [OF nt] by (simp add: setState_def)
qed

text \<open>
  Claim C6, amended: the reuse rule also needs the transport's own \<^verbatim>\<open>readyState\<close> to be
  OPEN (\<open>wsOpen\<close>). \<^verbatim>\<open>connect()\<close> changes nothing without an endpoint URL or session
  identifier; nothing when a transport exists, the state is Open, the transport is open
  and the recorded target equals the session context; and nothing while Connecting. A
  call that does open a transport creates exactly one and leaves the manager Connecting,
  so a second call creates none.
\<close>

theorem connect_idempotent:
  "(\<not> truthy_str (url m) \<or> \<not> truthy_str (sessionId m) \<longrightarrow> connect P m = m)
   \<and> (ws m \<noteq> None \<and> state m = Open \<and> wsOpen m \<and> connectedUrl m = url m
        \<and> connectedSessionId m = sessionId m \<longrightarrow> connect P m = m)
   \<and> (state m = Connecting \<longrightarrow> connect P m = m)
   \<and> (truthy_str (url m) \<and> truthy_str (sessionId m)
        \<and> \<not> (ws m \<noteq> None \<and> state m = Open \<and> wsOpen m \<and> connectedUrl m = url m
                \<and> connectedSessionId m = sessionId m)
        \<and> state m \<noteq> Connecting \<and> \<not> WebSocket_throws P (the (url m)) \<longrightarrow>
          state (connect P m) = Connecting
        \<and> length (sockets (connect P m)) = Suc (length (sockets m))
        \<and> connect P (connect P m) = connect P m
        \<and> length (sockets (connect P (connect P m))) = Suc (length (sockets m)))"
proof -
  have twice: "state (connect P m) = Connecting
        \<and> length (sockets (connect P m)) = Suc (length (sockets m))
        \<and> connect P (connect P m) = connect P m
        \<and> length (sockets (connect P (connect P m))) = Suc (length (sockets m))"
    if "truthy_str (url m)" "truthy_str (sessionId m)"
       "\<not> (ws m \<noteq> None \<and> state m = Open \<and> wsOpen m \<and> connectedUrl m = url m
             \<and> connectedSessionId m = sessionId m)"
       "state m \<noteq> Connecting" "\<not> WebSocket_throws P (the (url m))"
  proof -
    note o = connect_opens(1,2) [OF that]
    from o(1) have "connect P (connect P m) = connect P m" by (rule connect_noop(3))
    with o show ?thesis by simp
  qed
  show ?thesis
    using connect_noop [of m P] twice by blast
qed

text \<open>
  The theorem at the fresh manager with its session context set: the first \<^verbatim>\<open>connect()\<close>
  creates the only transport, the second is a no-op; and once that transport is open a
  further \<^verbatim>\<open>connect()\<close> reuses it.
\<close>

theorem connect_idempotent_witness:
  "\<not> truthy_str (url (init None))
   \<and> connect demoPlatform (init None) = init None
   \<and> truthy_str (url contextSet) \<and> truthy_str (sessionId contextSet)
   \<and> state contextSet = Idle
   \<and> \<not> WebSocket_throws demoPlatform (the (url contextSet))
   \<and> state (connect demoPlatform contextSet) = Connecting
   \<and> length (sockets contextSet) = 0
   \<and> length (sockets (connect demoPlatform (connect demoPlatform contextSet))) = Suc (length (sockets contextSet))
   \<and> connect demoPlatform (connect demoPlatform contextSet) = connect demoPlatform contextSet
   \<and> wsOpen (step demoPlatform (connecting None) (EvOpen 0))
   \<and> connect demoPlatform (step demoPlatform (connecting None) (EvOpen 0))
       = step demoPlatform (connecting None) (EvOpen 0)"
proof -
  let ?o = "step demoPlatform (connecting None) (EvOpen 0)"
  have nourl: "\<not> truthy_str (url (init None))" by (simp add: init_def truthy_str_def)
  have pre: "truthy_str (url contextSet)" "truthy_str (sessionId contextSet)"
    "state contextSet = Idle" "\<not> WebSocket_throws demoPlatform (the (url contextSet))"
    "length (sockets contextSet) = 0" "ws contextSet = None"
    by (simp_all add: contextSet_def model_defs)
  have reuse: "ws ?o \<noteq> None" "state ?o = Open" "wsOpen ?o" "connectedUrl ?o = url ?o"
    "connectedSessionId ?o = sessionId ?o"
    by (simp_all add: connecting_def model_defs)
  from connect_idempotent [of "init None" demoPlatform] nourl
  have a: "connect demoPlatform (init None) = init None" by blast
  from connect_idempotent [of contextSet demoPlatform] pre
  have b: "state (connect demoPlatform contextSet) = Connecting"
    "length (sockets (connect demoPlatform (connect demoPlatform contextSet))) = Suc (length (sockets contextSet))"
    "connect demoPlatform (connect demoPlatform contextSet) = connect demoPlatform contextSet"
    by simp_all
  from connect_idempotent [of ?o demoPlatform] reuse
  have c: "connect demoPlatform ?o = ?o" by blast
  show ?thesis using nourl a pre(1-5) b reuse(3) c by blast
qed

text \<open>
  Claim C6 as stated fails. The peer starts the closing handshake of the open transport:
  \<^verbatim>\<open>readyState\<close> is CLOSING, no event has reached the manager yet. A transport exists, the
  state is Open and the recorded target equals the session context, yet \<^verbatim>\<open>connect()\<close>
  creates a second transport.
\<close>

theorem connect_new_transport_while_open:
  "ws peerClosing = Some 0 \<and> state peerClosing = Open
   \<and> connectedUrl peerClosing = url peerClosing
   \<and> connectedSessionId peerClosing = sessionId peerClosing
   \<and> readyStateOf peerClosing 0 = CLOSING
   \<and> length (sockets peerClosing) = 1
   \<and> length (sockets (connect demoPlatform peerClosing)) = 2
   \<and> ws (connect demoPlatform peerClosing) = Some 1
   \<and> connect demoPlatform peerClosing \<noteq> peerClosing"
proof -
  have a: "ws peerClosing = Some 0 \<and> state peerClosing = Open
   \<and> connectedUrl peerClosing = url peerClosing
   \<and> connectedSessionId peerClosing = sessionId peerClosing
   \<and> readyStateOf peerClosing 0 = CLOSING
   \<and> length (sockets peerClosing) = 1
   \<and> length (sockets (connect demoPlatform peerClosing)) = 2
   \<and> ws (connect demoPlatform peerClosing) = Some 1"
    by (simp add: peerClosing_def model_defs)
  then have "ws (connect demoPlatform peerClosing) \<noteq> ws peerClosing" by simp
  then have "connect demoPlatform peerClosing \<noteq> peerClosing" by auto
  with a show ?thesis by simp
qed

section \<open>Changing the session context (C10)\<close>

text \<open>
  Claim C10, amended: the guard also needs a transport to exist. When a transport exists,
  the state is Open and one of the three fields differs, \<^verbatim>\<open>updateSessionContext\<close> stores
  the new context and runs \<^verbatim>\<open>close()\<close>: the queue is emptied without anything being
  transmitted, the explicitly-closed flag is set, the state is Closed and the transport
  is dropped. When the state is not Open, or no transport exists, the three context
  fields are the only change.
\<close>

theorem updateSessionContext_closes:
  "(ws m \<noteq> None \<and> state m = Open
      \<and> (url m \<noteq> Some (opt_url options) \<or> sessionId m \<noteq> Some (opt_sessionId options)
           \<or> isAssistantMode m \<noteq> opt_isAssistantMode options) \<longrightarrow>
        updateSessionContext options m
          = close (m\<lparr> url := Some (opt_url options), sessionId := Some (opt_sessionId options),
                       isAssistantMode := opt_isAssistantMode options \<rparr>)
      \<and> sendQueue (updateSessionContext options m) = []
      \<and> explicitlyClosed (updateSessionContext options m)
      \<and> \<not> authorized (updateSessionContext options m)
      \<and> state (updateSessionContext options m) = Closed
      \<and> ws (updateSessionContext options m) = None
      \<and> map sent (sockets (updateSessionContext options m)) = map sent (sockets m)
      \<and> url (updateSessionContext options m) = Some (opt_url options)
      \<and> sessionId (updateSessionContext options m) = Some (opt_sessionId options)
      \<and> isAssistantMode (updateSessionContext options m) = opt_isAssistantMode options)
   \<and> (state m \<noteq> Open \<or> ws m = None \<longrightarrow>
        updateSessionContext options m
          = m\<lparr> url := Some (opt_url options), sessionId := Some (opt_sessionId options),
               isAssistantMode := opt_isAssistantMode options \<rparr>)"
proof -
  let ?m1 = "m\<lparr> url := Some (opt_url options), sessionId := Some (opt_sessionId options),
                 isAssistantMode := opt_isAssistantMode options \<rparr>"
  have closes: "updateSessionContext options m = close ?m1"
    if "ws m \<noteq> None" "state m = Open"
       "url m \<noteq> Some (opt_url options) \<or> sessionId m \<noteq> Some (opt_sessionId options)
           \<or> isAssistantMode m \<noteq> opt_isAssistantMode options"
    using that by (auto simp: updateSessionContext_def Let_def)
  have after: "sendQueue (close ?m1) = []" "explicitlyClosed (close ?m1)" "\<not> authorized (close ?m1)"
    "state (close ?m1) = Closed" "ws (close ?m1) = None"
    "map sent (sockets (close ?m1)) = map sent (sockets m)"
    "url (close ?m1) = Some (opt_url options)"
    "sessionId (close ?m1) = Some (opt_sessionId options)"
    "isAssistantMode (close ?m1) = opt_isAssistantMode options"
    by (simp_all add: close_fields)
  have only: "updateSessionContext options m = ?m1" if "state m \<noteq> Open \<or> ws m = None"
    using that by (auto simp: updateSessionContext_def Let_def)
  show ?thesis
  proof (intro conjI impI)
    assume a: "ws m \<noteq> None \<and> state m = Open
      \<and> (url m \<noteq> Some (opt_url options) \<or> sessionId m \<noteq> Some (opt_sessionId options)
           \<or> isAssistantMode m \<noteq> opt_isAssistantMode options)"
    then have c: "updateSessionContext options m = close ?m1" using closes by blast
    show "updateSessionContext options m = close ?m1" by (rule c)
    show "sendQueue (updateSessionContext options m) = []" unfolding c by (rule after)
    show "explicitlyClosed (updateSessionContext options m)" unfolding c by (rule after)
    show "\<not> authorized (updateSessionContext options m)" unfolding c by (rule after)
    show "state (updateSessionContext options m) = Closed" unfolding c by (rule after)
    show "ws (updateSessionContext options m) = None" unfolding c by (rule after)
    show "map sent (sockets (updateSessionContext options m)) = map sent (sockets m)"
      unfolding c by (rule after)
    show "url (updateSessionContext options m) = Some (opt_url options)" unfolding c by (rule after)
    show "sessionId (updateSessionContext options m) = Some (opt_sessionId options)"
      unfolding c by (rule after)
    show "isAssistantMode (updateSessionContext options m) = opt_isAssistantMode options"
      unfolding c by (rule after)
  next
    assume "state m \<noteq> Open \<or> ws m = None"
    then show "updateSessionContext options m = ?m1" by (rule only)
  qed
qed

text \<open>
  The theorem in the scenario: the transport is open, authorization is outstanding and
  one payload is queued when the caller switches to another session; and on the connecting
  manager, where only the context is stored.
\<close>

theorem updateSessionContext_closes_witness:
  "ws awaitingAuth \<noteq> None \<and> state awaitingAuth = Open
   \<and> url awaitingAuth \<noteq> Some (opt_url otherContext)
   \<and> sendQueue awaitingAuth = [Some ''hi'']
   \<and> sendQueue (updateSessionContext otherContext awaitingAuth) = []
   \<and> explicitlyClosed (updateSessionContext otherContext awaitingAuth)
   \<and> state (updateSessionContext otherContext awaitingAuth) = Closed
   \<and> map sent (sockets (updateSessionContext otherContext awaitingAuth)) = map sent (sockets awaitingAuth)
   \<and> state (connecting None) \<noteq> Open
   \<and> updateSessionContext otherContext (connecting None)
       = (connecting None)\<lparr> url := Some (opt_url otherContext),
                               sessionId := Some (opt_sessionId otherContext),
                               isAssistantMode := opt_isAssistantMode otherContext \<rparr>"
proof -
  have pre: "ws awaitingAuth \<noteq> None" "state awaitingAuth = Open"
    "url awaitingAuth \<noteq> Some (opt_url otherContext)" "sendQueue awaitingAuth = [Some ''hi'']"
    by (simp_all add: awaitingAuth_eval) (simp add: awaitingAuth_def otherContext_def scenario_defs)
  have pre2: "state (connecting None) \<noteq> Open"
    by (simp add: connecting_def model_defs)
  show ?thesis
    using updateSessionContext_closes [of awaitingAuth otherContext]
      updateSessionContext_closes [of "connecting None" otherContext] pre pre2
    by blast
qed

text \<open>
  Claim C10 as stated fails. A first transport is closed by the caller and a second one
  opened; the first one's close event sets the state back to Closed, so the reconnect
  timer opens a third while the second is still connecting; the caller closes again, and
  then the second transport opens. The state is Open with no transport, and a changed
  context does not run \<^verbatim>\<open>close()\<close>: the state stays Open and the heartbeat keeps running.
\<close>

theorem updateSessionContext_open_without_transport:
  "state orphanOpened = Open \<and> ws orphanOpened = None
   \<and> url orphanOpened \<noteq> Some (opt_url otherContext)
   \<and> heartbeatTimer orphanOpened = Some 3
   \<and> stateLog (updateSessionContext otherContext orphanOpened) = stateLog orphanOpened
   \<and> state (updateSessionContext otherContext orphanOpened) = Open
   \<and> heartbeatTimer (updateSessionContext otherContext orphanOpened) = Some 3
   \<and> map fst (timers (updateSessionContext otherContext orphanOpened)) = [3]"
  by (simp add: orphanOpened_def otherContext_def scenario_defs)

section \<open>The transport opens (C2)\<close>






lemma sendAuthorization_fields [simp]:
  "state (sendAuthorization P m) = state m"
  "stateLog (sendAuthorization P m) = stateLog m"
  "reconnectAttempts (sendAuthorization P m) = reconnectAttempts m"
  "heartbeatTimer (sendAuthorization P m) = heartbeatTimer m"
  "timers (sendAuthorization P m) = timers m"
  "ws (sendAuthorization P m) = ws m"
  by (simp_all add: sendAuthorization_def ws_send_def Let_def split: option.splits)







end
